theory Spec2Isabelle
  imports Main "HOL-Library.Word"
begin

section \<open>Values exchanged with the transport\<close>

text \<open>
  A payload is what the JSON of an event deserialises to, or \<open>undefined\<close> when the
  argument is missing. Numbers are kept as integers: the handlers never compute with them.
\<close>

datatype jsval =
    JUndefined
  | JNull
  | JBool bool
  | JNum int
  | JStr string
  | JArr "jsval list"
  | JObj "(string \<times> jsval) list"

text \<open>
  The media id of an upvote is kept in a JavaScript \<open>Set\<close>, whose membership test is
  SameValueZero: equality on primitives, identity on objects. An object or array payload is
  therefore a reference (\<open>IRef\<close>, numbered by the environment), never its contents.
\<close>

datatype item =
    IUndefined
  | INull
  | IBool bool
  | INum int
  | IStr string
  | IRef nat

datatype prototype =
    ObjectPrototype
  | ArrayPrototype
  | BooleanPrototype
  | NumberPrototype
  | StringPrototype

text \<open>\<open>Object.getPrototypeOf\<close>; on \<open>null\<close> and \<open>undefined\<close> it throws (\<open>None\<close>).\<close>

fun getPrototypeOf :: "jsval \<Rightarrow> prototype option" where
  "getPrototypeOf JUndefined = None"
| "getPrototypeOf JNull = None"
| "getPrototypeOf (JBool b) = Some BooleanPrototype"
| "getPrototypeOf (JNum n) = Some NumberPrototype"
| "getPrototypeOf (JStr s) = Some StringPrototype"
| "getPrototypeOf (JArr vs) = Some ArrayPrototype"
| "getPrototypeOf (JObj kvs) = Some ObjectPrototype"

text \<open>\<open>parameter != null\<close> is the loose comparison: false for \<open>null\<close> and \<open>undefined\<close>.\<close>

fun not_loosely_null :: "jsval \<Rightarrow> bool" where
  "not_loosely_null JUndefined = False"
| "not_loosely_null JNull = False"
| "not_loosely_null v = True"

definition isObject :: "jsval \<Rightarrow> bool" where
  "isObject parameter =
     (not_loosely_null parameter \<and> getPrototypeOf parameter = Some ObjectPrototype)"

section \<open>The registry\<close>

record user =
  roomId :: string
  server :: jsval
  library :: jsval
  upvoted :: "item list"

text \<open>
  \<open>rooms\<close> and \<open>users\<close> are the two module-level objects. A room is a \<open>Set\<close> of socket
  ids, kept as a list in insertion order (which \<open>values().next()\<close> observes). The maps
  hold the objects' own properties; \<open>rooms\<close> is read with keys that clients send, so the
  properties it inherits from \<open>Object.prototype\<close> are modelled as well (below). Socket ids
  come from the transport and are taken not to be such names. A room id is the property
  key the payload converts to.
\<close>

record state =
  rooms :: "string \<rightharpoonup> string list"
  users :: "string \<rightharpoonup> user"

definition init :: state where
  "init = \<lparr>rooms = Map.empty, users = Map.empty\<rparr>"

text \<open>\<open>Set.prototype.add\<close>, \<open>delete\<close>, and the first value of \<open>values()\<close>
  (\<open>undefined\<close>, as a property key, on an empty set).\<close>

definition set_add :: "'a \<Rightarrow> 'a list \<Rightarrow> 'a list" where
  "set_add x xs = (if x \<in> set xs then xs else xs @ [x])"

definition set_delete :: "'a \<Rightarrow> 'a list \<Rightarrow> 'a list" where
  "set_delete x xs = removeAll x xs"

fun first_value :: "string list \<Rightarrow> string" where
  "first_value [] = ''undefined''"
| "first_value (x # xs) = x"

text \<open>
  The properties every plain object inherits, each with the \<open>length\<close> that
  \<open>Array.from\<close> reads from its value (a function's arity; none on \<open>__proto__\<close>'s value).
  All of the values are truthy, none has \<open>add\<close>, \<open>delete\<close> or \<open>size\<close>.
\<close>

definition object_prototype :: "(string \<times> nat) list" where
  "object_prototype =
     [(''constructor'', 1), (''hasOwnProperty'', 1), (''isPrototypeOf'', 1),
      (''propertyIsEnumerable'', 1), (''toLocaleString'', 0), (''toString'', 0),
      (''valueOf'', 0), (''__defineGetter__'', 2), (''__defineSetter__'', 2),
      (''__lookupGetter__'', 1), (''__lookupSetter__'', 1), (''__proto__'', 0)]"

definition inherited :: "string \<Rightarrow> bool" where
  "inherited k = (map_of object_prototype k \<noteq> None)"

subsection \<open>Room identifiers\<close>

type_synonym draw = "8 word \<times> 8 word"

definition hex_digit :: "nat \<Rightarrow> char" where
  "hex_digit n = ''0123456789ABCDEF'' ! n"

definition hex_byte :: "8 word \<Rightarrow> string" where
  "hex_byte b = [hex_digit (unat b div 16), hex_digit (unat b mod 16)]"

text \<open>\<open>crypto.randomBytes(2).toString("hex").toUpperCase()\<close>, on the two bytes drawn.\<close>

definition getIdString :: "draw \<Rightarrow> string" where
  "getIdString d = hex_byte (fst d) @ hex_byte (snd d)"

text \<open>
  \<open>generateRoomId\<close> draws until the id is not an own property of \<open>rooms\<close>. The random
  source is the list of draws still to come; \<open>None\<close> when they are used up.
\<close>

fun generateRoomId :: "state \<Rightarrow> draw list \<Rightarrow> string option" where
  "generateRoomId s [] = None"
| "generateRoomId s (d # ds) =
     (if rooms s (getIdString d) \<noteq> None then generateRoomId s ds
      else Some (getIdString d))"

definition createUser :: "string \<Rightarrow> user" where
  "createUser rid = \<lparr>roomId = rid, server = JStr [], library = JStr [], upvoted = []\<rparr>"

subsection \<open>What a handler does\<close>

datatype reply =
    IdReply string
  | JoinReply jsval jsval
  | StatusReply bool string

datatype broadcast =
    UserCount int
  | ConsensusReached item

datatype effect =
    Callback reply
  | Emit string broadcast

text \<open>
  A handler leaves the registry in \<open>post\<close>, has invoked the acknowledgement and emitted
  the broadcasts of \<open>out\<close> in this order, and \<open>threw\<close> says whether it ended in a
  \<open>TypeError\<close> rather than returning. Logging is left out.
\<close>

record result =
  post :: state
  out :: "effect list"
  threw :: bool

datatype 'a completion = Normal 'a | Throw

text \<open>\<open>rooms[id]?.size || -1\<close>\<close>

definition room_count :: "state \<Rightarrow> string \<Rightarrow> int" where
  "room_count s rid =
     (case rooms s rid of
        Some members \<Rightarrow> if length members = 0 then - 1 else int (length members)
      | None \<Rightarrow> - 1)"

definition emitRoomUserCount :: "state \<Rightarrow> string \<Rightarrow> effect" where
  "emitRoomUserCount s rid = Emit rid (UserCount (room_count s rid))"

definition getPlexInformationForRoom ::
  "state \<Rightarrow> string \<Rightarrow> (jsval \<times> jsval) option completion" where
  "getPlexInformationForRoom s rid =
     (case rooms s rid of
        Some members \<Rightarrow>
          (case users s (first_value members) of
             Some roomOwner \<Rightarrow> Normal (Some (server roomOwner, library roomOwner))
           | None \<Rightarrow> Throw)
      | None \<Rightarrow> if inherited rid then Throw else Normal None)"

text \<open>\<open>usersInRoom.every(socketId => users[socketId].upvoted.has(mediaId))\<close>: stops at
  the first member without the item, throws at a member without a record.\<close>

fun every_upvoted :: "state \<Rightarrow> item \<Rightarrow> string list \<Rightarrow> bool completion" where
  "every_upvoted s mediaId [] = Normal True"
| "every_upvoted s mediaId (socketId # rest) =
     (case users s socketId of
        None \<Rightarrow> Throw
      | Some u \<Rightarrow>
          if mediaId \<in> set (upvoted u) then every_upvoted s mediaId rest
          else Normal False)"

text \<open>\<open>Array.from(rooms[roomId])\<close>, for a truthy \<open>rooms[roomId]\<close>.\<close>

definition usersInRoom :: "state \<Rightarrow> string \<Rightarrow> string list" where
  "usersInRoom s rid =
     (case rooms s rid of
        Some members \<Rightarrow> members
      | None \<Rightarrow>
          (case map_of object_prototype rid of
             Some n \<Rightarrow> replicate n ''undefined''
           | None \<Rightarrow> []))"

definition checkConsensus :: "state \<Rightarrow> string \<Rightarrow> item \<Rightarrow> effect list \<times> bool" where
  "checkConsensus s rid mediaId =
     (if rooms s rid = None \<and> \<not> inherited rid then ([], False)
      else
        (case every_upvoted s mediaId (usersInRoom s rid) of
           Throw \<Rightarrow> ([], True)
         | Normal reached \<Rightarrow>
             (if reached then [Emit rid (ConsensusReached mediaId)] else [], False)))"

subsection \<open>The handlers\<close>

text \<open>
  Each handler takes the registry, the socket's id, the event's payload and whether the
  acknowledgement argument is a function. Calling a missing acknowledgement throws.
\<close>

definition disconnect :: "state \<Rightarrow> string \<Rightarrow> result" where
  "disconnect s sid =
     (case users s sid of
        None \<Rightarrow> \<lparr>post = s, out = [], threw = False\<rparr>
      | Some u \<Rightarrow>
          (case rooms s (roomId u) of
             Some members \<Rightarrow>
               (let members' = set_delete sid members in
                if length members' = 0 then
                  \<lparr>post = s\<lparr>rooms := (rooms s)(roomId u := None),
                             users := (users s)(sid := None)\<rparr>,
                   out = [], threw = False\<rparr>
                else
                  (let s1 = s\<lparr>rooms := (rooms s)(roomId u \<mapsto> members')\<rparr> in
                   \<lparr>post = s1\<lparr>users := (users s1)(sid := None)\<rparr>,
                    out = [emitRoomUserCount s1 (roomId u)], threw = False\<rparr>))
           | None \<Rightarrow>
               if inherited (roomId u) then \<lparr>post = s, out = [], threw = True\<rparr>
               else \<lparr>post = s\<lparr>users := (users s)(sid := None)\<rparr>, out = [], threw = False\<rparr>))"

definition createRoom :: "state \<Rightarrow> string \<Rightarrow> draw list \<Rightarrow> bool \<Rightarrow> result option" where
  "createRoom s sid draws callback =
     (case generateRoomId s draws of
        None \<Rightarrow> None
      | Some rid \<Rightarrow>
          (let s1 = s\<lparr>rooms := (rooms s)(rid \<mapsto> set_add sid [])\<rparr>;
               s2 = s1\<lparr>users := (users s1)(sid \<mapsto> createUser rid)\<rparr>
           in Some (if callback then
                      \<lparr>post = s2, out = [Callback (IdReply rid), emitRoomUserCount s2 rid],
                       threw = False\<rparr>
                    else \<lparr>post = s2, out = [], threw = True\<rparr>)))"

definition joinRoom :: "state \<Rightarrow> string \<Rightarrow> string \<Rightarrow> bool \<Rightarrow> result" where
  "joinRoom s sid rid callback =
     (case rooms s rid of
        Some members \<Rightarrow>
          (let s1 = s\<lparr>rooms := (rooms s)(rid \<mapsto> set_add sid members)\<rparr>;
               s2 = s1\<lparr>users := (users s1)(sid \<mapsto> createUser rid)\<rparr>
           in (case getPlexInformationForRoom s2 rid of
                 Normal (Some (sv, lb)) \<Rightarrow>
                   (let s3 = s2\<lparr>users := (users s2)(sid \<mapsto>
                                  (createUser rid)\<lparr>server := sv, library := lb\<rparr>)\<rparr>
                    in if callback then
                         \<lparr>post = s3,
                          out = [Callback (JoinReply sv lb), emitRoomUserCount s3 rid],
                          threw = False\<rparr>
                       else \<lparr>post = s3, out = [], threw = True\<rparr>)
               | Normal None \<Rightarrow> \<lparr>post = s2, out = [], threw = True\<rparr>
               | Throw \<Rightarrow> \<lparr>post = s2, out = [], threw = True\<rparr>))
      | None \<Rightarrow>
          if inherited rid then \<lparr>post = s, out = [], threw = True\<rparr>
          else if callback then
            \<lparr>post = s,
             out = [Callback (StatusReply False (''Unable to find room with the Id: '' @ rid))],
             threw = False\<rparr>
          else \<lparr>post = s, out = [], threw = True\<rparr>)"

definition setUserServer :: "state \<Rightarrow> string \<Rightarrow> jsval \<Rightarrow> bool \<Rightarrow> result" where
  "setUserServer s sid sv callback =
     (case users s sid of
        Some u \<Rightarrow>
          if isObject sv then
            (let s1 = s\<lparr>users := (users s)(sid \<mapsto> u\<lparr>server := sv\<rparr>)\<rparr> in
             if callback then
               \<lparr>post = s1,
                out = [Callback (StatusReply True ''Updated the server for the user.'')],
                threw = False\<rparr>
             else \<lparr>post = s1, out = [], threw = True\<rparr>)
          else if callback then
            \<lparr>post = s,
             out = [Callback (StatusReply False
               ''Failed to update the Plex.tv server. An invalid server object was received.'')],
             threw = False\<rparr>
          else \<lparr>post = s, out = [], threw = True\<rparr>
      | None \<Rightarrow>
          if callback then
            \<lparr>post = s,
             out = [Callback (StatusReply False (''Unable to find user with the Id: '' @ sid))],
             threw = False\<rparr>
          else \<lparr>post = s, out = [], threw = True\<rparr>)"

definition setUserLibrary :: "state \<Rightarrow> string \<Rightarrow> jsval \<Rightarrow> bool \<Rightarrow> result" where
  "setUserLibrary s sid lb callback =
     (case users s sid of
        Some u \<Rightarrow>
          if isObject lb then
            (let s1 = s\<lparr>users := (users s)(sid \<mapsto> u\<lparr>library := lb\<rparr>)\<rparr> in
             if callback then
               \<lparr>post = s1,
                out = [Callback (StatusReply True ''Updated the library for the user.'')],
                threw = False\<rparr>
             else \<lparr>post = s1, out = [], threw = True\<rparr>)
          else if callback then
            \<lparr>post = s,
             out = [Callback (StatusReply False
               ''Failed to update the Plex.tv library. An invalid library object was received.'')],
             threw = False\<rparr>
          else \<lparr>post = s, out = [], threw = True\<rparr>
      | None \<Rightarrow>
          if callback then
            \<lparr>post = s,
             out = [Callback (StatusReply False (''Unable to find user with the Id: '' @ sid))],
             threw = False\<rparr>
          else \<lparr>post = s, out = [], threw = True\<rparr>)"

definition requestUserCount :: "state \<Rightarrow> string \<Rightarrow> result" where
  "requestUserCount s rid =
     (if rooms s rid \<noteq> None \<or> inherited rid then
        \<lparr>post = s, out = [emitRoomUserCount s rid], threw = False\<rparr>
      else \<lparr>post = s, out = [], threw = False\<rparr>)"

definition upvote :: "state \<Rightarrow> string \<Rightarrow> item \<Rightarrow> bool \<Rightarrow> result" where
  "upvote s sid mediaId callback =
     (case users s sid of
        Some u \<Rightarrow>
          if mediaId \<notin> set (upvoted u) then
            (let s1 = s\<lparr>users := (users s)(sid \<mapsto> u\<lparr>upvoted := set_add mediaId (upvoted u)\<rparr>)\<rparr>;
                 acks = (if callback then [Callback (StatusReply True ''Upvoted successfully.'')]
                         else []);
                 checked = checkConsensus s1 (roomId u) mediaId
             in \<lparr>post = s1, out = acks @ fst checked, threw = snd checked\<rparr>)
          else \<lparr>post = s, out = [], threw = False\<rparr>
      | None \<Rightarrow>
          if callback then
            \<lparr>post = s,
             out = [Callback (StatusReply False (''Unable to find user with the Id: '' @ sid))],
             threw = False\<rparr>
          else \<lparr>post = s, out = [], threw = True\<rparr>)"

subsection \<open>Sequences of events\<close>

datatype request =
    CreateRoom "draw list" bool
  | JoinRoom string bool
  | SetUserServer jsval bool
  | SetUserLibrary jsval bool
  | RequestUserCount string
  | Upvote item bool
  | Disconnect

fun handle :: "state \<Rightarrow> string \<Rightarrow> request \<Rightarrow> result option" where
  "handle s sid (CreateRoom draws cb) = createRoom s sid draws cb"
| "handle s sid (JoinRoom rid cb) = Some (joinRoom s sid rid cb)"
| "handle s sid (SetUserServer v cb) = Some (setUserServer s sid v cb)"
| "handle s sid (SetUserLibrary v cb) = Some (setUserLibrary s sid v cb)"
| "handle s sid (RequestUserCount rid) = Some (requestUserCount s rid)"
| "handle s sid (Upvote mediaId cb) = Some (upvote s sid mediaId cb)"
| "handle s sid Disconnect = Some (disconnect s sid)"

text \<open>
  The registry after any sequence of events, from any sockets. The state a handler leaves
  when it throws is included, so what holds of \<open>reachable\<close> does not depend on whether
  the process survives the exception.
\<close>

inductive reachable :: "state \<Rightarrow> bool" where
  reachable_init: "reachable init"
| reachable_step: "reachable s \<Longrightarrow> handle s sid req = Some r \<Longrightarrow> reachable (post r)"

text \<open>The same, when a socket sends \<open>createRoom\<close> or \<open>joinRoom\<close> only while it has no
  record (it has not entered a room since it connected).\<close>

fun enters :: "request \<Rightarrow> bool" where
  "enters (CreateRoom draws cb) = True"
| "enters (JoinRoom rid cb) = True"
| "enters req = False"

inductive reachable_once :: "state \<Rightarrow> bool" where
  once_init: "reachable_once init"
| once_step: "reachable_once s \<Longrightarrow> handle s sid req = Some r \<Longrightarrow>
     (enters req \<Longrightarrow> users s sid = None) \<Longrightarrow> reachable_once (post r)"

text \<open>Running a given sequence of events; \<open>once\<close> refuses an entry by a socket that
  has a record.\<close>

fun run :: "bool \<Rightarrow> state \<Rightarrow> (string \<times> request) list \<Rightarrow> state option" where
  "run once s [] = Some s"
| "run once s ((sid, req) # evs) =
     (if once \<and> enters req \<and> users s sid \<noteq> None then None
      else (case handle s sid req of None \<Rightarrow> None | Some r \<Rightarrow> run once (post r) evs))"

definition after :: "bool \<Rightarrow> (string \<times> request) list \<Rightarrow> state" where
  "after once evs = (case run once init evs of Some s \<Rightarrow> s | None \<Rightarrow> init)"

subsection \<open>Invariants of the registry\<close>

text \<open>
  What every sequence of events keeps: the room a record names is live and holds the
  socket; a live room has a member and a four-character id.
\<close>

definition registry_inv :: "state \<Rightarrow> bool" where
  "registry_inv s \<longleftrightarrow>
     (\<forall>sid u. users s sid = Some u \<longrightarrow>
        (\<exists>members. rooms s (roomId u) = Some members \<and> sid \<in> set members)) \<and>
     (\<forall>rid members. rooms s rid = Some members \<longrightarrow>
        members \<noteq> [] \<and> length rid = 4)"

text \<open>Every member of a live room has a record, and the record names that room.\<close>

definition members_recorded :: "state \<Rightarrow> bool" where
  "members_recorded s \<longleftrightarrow>
     (\<forall>rid members m. rooms s rid = Some members \<longrightarrow> m \<in> set members \<longrightarrow>
        (\<exists>u. users s m = Some u \<and> roomId u = rid))"

text \<open>The requests that only ask for the member count.\<close>

fun direct_request :: "request \<Rightarrow> bool" where
  "direct_request (RequestUserCount rid) = True"
| "direct_request req = False"

text \<open>Every handler of the sequence returned (none threw).\<close>

fun returns :: "state \<Rightarrow> (string \<times> request) list \<Rightarrow> bool" where
  "returns s [] = True"
| "returns s ((sid, req) # evs) =
     (case handle s sid req of
        None \<Rightarrow> False
      | Some r \<Rightarrow> \<not> threw r \<and> returns (post r) evs)"

text \<open>In the sequence, the socket neither enters a room again nor disconnects: the two
  events that replace or delete its record.\<close>

fun keeps_record :: "string \<Rightarrow> (string \<times> request) list \<Rightarrow> bool" where
  "keeps_record sid [] = True"
| "keeps_record sid ((x, req) # evs) =
     ((x \<noteq> sid \<or> (\<not> enters req \<and> req \<noteq> Disconnect)) \<and> keeps_record sid evs)"

subsection \<open>Example sessions\<close>

definition plex_server :: jsval where
  "plex_server = JObj [(''server'', JStr ''https://plex.tv'')]"

definition movies :: jsval where
  "movies = JObj [(''title'', JStr ''Movies'')]"

text \<open>Socket \<open>A\<close> creates room \<open>0001\<close> and sets its server and library.\<close>

definition hosted :: "(string \<times> request) list" where
  "hosted = [(''A'', CreateRoom [(0, 1)] True), (''A'', SetUserServer plex_server True),
             (''A'', SetUserLibrary movies True)]"

text \<open>The same, and then socket \<open>B\<close> joins.\<close>

definition lobby :: "(string \<times> request) list" where
  "lobby = [(''A'', CreateRoom [(0, 1)] True), (''A'', SetUserServer plex_server True),
            (''A'', SetUserLibrary movies True), (''B'', JoinRoom ''0001'' True)]"

text \<open>The same, and then \<open>A\<close> upvotes item \<open>"42"\<close>.\<close>

definition voted :: "(string \<times> request) list" where
  "voted = [(''A'', CreateRoom [(0, 1)] True), (''A'', SetUserServer plex_server True),
            (''A'', SetUserLibrary movies True), (''B'', JoinRoom ''0001'' True),
            (''A'', Upvote (IStr ''42'') True)]"

text \<open>Socket \<open>A\<close> creates a room, then a second one (whose first draw collides).\<close>

definition two_rooms :: "(string \<times> request) list" where
  "two_rooms = [(''A'', CreateRoom [(0, 1)] True), (''A'', CreateRoom [(0, 1), (0, 2)] True)]"

text \<open>The same, and then \<open>A\<close> disconnects.\<close>

definition abandoned :: "(string \<times> request) list" where
  "abandoned = [(''A'', CreateRoom [(0, 1)] True), (''A'', CreateRoom [(0, 1), (0, 2)] True),
                (''A'', Disconnect)]"

text \<open>\<open>A\<close> creates a room, \<open>B\<close> joins it, \<open>A\<close> creates another room and disconnects.\<close>

definition stale :: "(string \<times> request) list" where
  "stale = [(''A'', CreateRoom [(0, 1)] True), (''B'', JoinRoom ''0001'' True),
            (''A'', CreateRoom [(0, 2)] True), (''A'', Disconnect)]"

text \<open>Socket \<open>A\<close> creates a room.\<close>

definition created :: "(string \<times> request) list" where
  "created = [(''A'', CreateRoom [(0, 1)] True)]"

text \<open>The same, and then \<open>A\<close> upvotes item \<open>"42"\<close> and joins its own room again.\<close>

definition revoted :: "(string \<times> request) list" where
  "revoted = [(''A'', CreateRoom [(0, 1)] True), (''A'', Upvote (IStr ''42'') True),
              (''A'', JoinRoom ''0001'' True)]"

text \<open>What follows \<open>A\<close>'s vote for \<open>"42"\<close> in the lobby: \<open>B\<close> votes for another item,
  \<open>A\<close> changes its library, \<open>B\<close> joins again; and the registry after that.\<close>

definition between :: "(string \<times> request) list" where
  "between = [(''B'', Upvote (IStr ''7'') True), (''A'', SetUserLibrary (JObj []) True),
              (''B'', JoinRoom ''0001'' True)]"

definition later :: state where
  "later =
     post (joinRoom
       (post (setUserLibrary
         (post (upvote (post (upvote (after True lobby) ''A'' (IStr ''42'') True))
            ''B'' (IStr ''7'') True))
         ''A'' (JObj []) True))
       ''B'' ''0001'' True)"

section \<open>Properties\<close>

subsection \<open>Sets and room identifiers\<close>

lemma length_getIdString: "length (getIdString d) = 4"
  by (simp add: getIdString_def hex_byte_def)

lemma inherited_length: "inherited k \<Longrightarrow> length k \<noteq> 4"
  by (auto simp: inherited_def object_prototype_def split: if_splits)

lemma generateRoomId_fresh:
  "generateRoomId s ds = Some rid \<Longrightarrow> rooms s rid = None \<and> length rid = 4"
  by (induction ds) (auto simp: length_getIdString split: if_splits)

lemma set_set_add [simp]: "set (set_add x xs) = insert x (set xs)"
  by (auto simp: set_add_def)

lemma set_add_not_Nil [simp]: "set_add x xs \<noteq> []"
  by (cases xs) (simp_all add: set_add_def)

lemma Nil_not_set_add [simp]: "[] \<noteq> set_add x xs"
  by (cases xs) (simp_all add: set_add_def)

lemma set_set_delete [simp]: "set (set_delete x xs) = set xs - {x}"
  by (simp add: set_delete_def)

subsection \<open>What every sequence of events keeps\<close>

text \<open>
  Entering a room (creating or joining), changing a record in place and leaving are the
  three ways the handlers change the registry; \<open>registry_inv\<close> survives each.
\<close>

lemma inv_room:
  "registry_inv s \<Longrightarrow> users s sid = Some u \<Longrightarrow>
     \<exists>members. rooms s (roomId u) = Some members \<and> sid \<in> set members"
  unfolding registry_inv_def by blast

lemma inv_live:
  "registry_inv s \<Longrightarrow> rooms s rid = Some members \<Longrightarrow> members \<noteq> [] \<and> length rid = 4"
  unfolding registry_inv_def by blast

lemma inv_enter:
  assumes inv: "registry_inv s"
    and room: "rooms s rid = Some members \<or> (rooms s rid = None \<and> members = [] \<and> length rid = 4)"
    and u': "roomId u' = rid"
  shows "registry_inv (s\<lparr>rooms := (rooms s)(rid \<mapsto> set_add sid members),
                          users := (users s)(sid \<mapsto> u')\<rparr>)"
  unfolding registry_inv_def
proof (intro conjI allI impI)
  fix x u
  assume "users (s\<lparr>rooms := (rooms s)(rid \<mapsto> set_add sid members),
                   users := (users s)(sid \<mapsto> u')\<rparr>) x = Some u"
  then have x: "(x = sid \<and> u = u') \<or> (x \<noteq> sid \<and> users s x = Some u)"
    by (auto split: if_splits)
  show "\<exists>ms. rooms (s\<lparr>rooms := (rooms s)(rid \<mapsto> set_add sid members),
                   users := (users s)(sid \<mapsto> u')\<rparr>) (roomId u) = Some ms \<and> x \<in> set ms"
  proof (cases "roomId u = rid")
    case True
    show ?thesis
    proof (cases "x = sid")
      case True
      with \<open>roomId u = rid\<close> show ?thesis by simp
    next
      case False
      with x have "users s x = Some u" by simp
      from inv_room [OF inv this] True room have "x \<in> set members" by auto
      with True show ?thesis by simp
    qed
  next
    case False
    with x u' have "users s x = Some u" by auto
    from inv_room [OF inv this] False show ?thesis by simp
  qed
next
  fix r ms
  assume "rooms (s\<lparr>rooms := (rooms s)(rid \<mapsto> set_add sid members),
                   users := (users s)(sid \<mapsto> u')\<rparr>) r = Some ms"
  then have "(r = rid \<and> ms = set_add sid members) \<or> (r \<noteq> rid \<and> rooms s r = Some ms)"
    by (auto split: if_splits)
  with room inv_live [OF inv] show "ms \<noteq> []" "length r = 4"
    by auto
qed

lemma inv_update_user:
  assumes inv: "registry_inv s" and u: "users s sid = Some u" and u': "roomId u' = roomId u"
  shows "registry_inv (s\<lparr>users := (users s)(sid \<mapsto> u')\<rparr>)"
  using inv u u' unfolding registry_inv_def
  by (auto split: if_splits)

lemma inv_leave:
  assumes inv: "registry_inv s" and u: "users s sid = Some u"
    and room: "rooms s (roomId u) = Some members"
  shows "registry_inv (s\<lparr>rooms := (rooms s)(roomId u :=
            (if set_delete sid members = [] then None else Some (set_delete sid members))),
          users := (users s)(sid := None)\<rparr>)"
  unfolding registry_inv_def
proof (intro conjI allI impI)
  fix x v
  assume "users (s\<lparr>rooms := (rooms s)(roomId u :=
            (if set_delete sid members = [] then None else Some (set_delete sid members))),
          users := (users s)(sid := None)\<rparr>) x = Some v"
  then have x: "x \<noteq> sid" "users s x = Some v" by (auto split: if_splits)
  from inv_room [OF inv x(2)] obtain ms where ms: "rooms s (roomId v) = Some ms" "x \<in> set ms"
    by blast
  show "\<exists>ms. rooms (s\<lparr>rooms := (rooms s)(roomId u :=
            (if set_delete sid members = [] then None else Some (set_delete sid members))),
          users := (users s)(sid := None)\<rparr>) (roomId v) = Some ms \<and> x \<in> set ms"
  proof (cases "roomId v = roomId u")
    case True
    with ms room have "x \<in> set members" by simp
    with x(1) have "x \<in> set (set_delete sid members)" by simp
    then have "set_delete sid members \<noteq> []" by (metis list.set(1) empty_iff)
    with True \<open>x \<in> set (set_delete sid members)\<close> show ?thesis by simp
  next
    case False
    with ms show ?thesis by simp
  qed
next
  fix r ms
  assume "rooms (s\<lparr>rooms := (rooms s)(roomId u :=
            (if set_delete sid members = [] then None else Some (set_delete sid members))),
          users := (users s)(sid := None)\<rparr>) r = Some ms"
  then have "(r = roomId u \<and> ms = set_delete sid members \<and> ms \<noteq> []) \<or> (r \<noteq> roomId u \<and> rooms s r = Some ms)"
    by (auto split: if_splits)
  with room inv_live [OF inv] show "ms \<noteq> []" "length r = 4"
    by auto
qed

lemma registry_inv_init: "registry_inv init"
  by (simp add: registry_inv_def init_def)

lemma inv_createRoom:
  assumes "registry_inv s" "createRoom s sid ds cb = Some r"
  shows "registry_inv (post r)"
proof -
  from assms(2) obtain rid where g: "generateRoomId s ds = Some rid"
    by (auto simp: createRoom_def split: option.splits)
  from generateRoomId_fresh [OF g] have f: "rooms s rid = None" "length rid = 4" by simp_all
  from assms(2) g have p: "post r = s\<lparr>rooms := (rooms s)(rid \<mapsto> set_add sid []),
      users := (users s)(sid \<mapsto> createUser rid)\<rparr>"
    by (auto simp: createRoom_def Let_def split: if_splits)
  show ?thesis unfolding p
    by (rule inv_enter [OF assms(1)]) (simp_all add: f createUser_def)
qed

lemma post_joinRoom:
  "post (joinRoom s sid rid cb) =
     (case rooms s rid of
        None \<Rightarrow> s
      | Some members \<Rightarrow>
          s\<lparr>rooms := (rooms s)(rid \<mapsto> set_add sid members),
            users := (users s)(sid \<mapsto>
              (case getPlexInformationForRoom
                  (s\<lparr>rooms := (rooms s)(rid \<mapsto> set_add sid members),
                     users := (users s)(sid \<mapsto> createUser rid)\<rparr>) rid of
                 Normal (Some (sv, lb)) \<Rightarrow> (createUser rid)\<lparr>server := sv, library := lb\<rparr>
               | _ \<Rightarrow> createUser rid))\<rparr>)"
  by (simp add: joinRoom_def Let_def split: option.splits completion.splits prod.splits)

lemma inv_joinRoom:
  assumes "registry_inv s"
  shows "registry_inv (post (joinRoom s sid rid cb))"
proof (cases "rooms s rid")
  case None
  with assms show ?thesis by (simp add: post_joinRoom)
next
  case (Some members)
  show ?thesis unfolding post_joinRoom Some option.case
    by (rule inv_enter [OF assms])
      (simp_all add: Some createUser_def split: option.splits completion.splits prod.splits)
qed

lemma post_disconnect:
  "post (disconnect s sid) =
     (case users s sid of
        None \<Rightarrow> s
      | Some u \<Rightarrow>
          (case rooms s (roomId u) of
             Some members \<Rightarrow>
               s\<lparr>rooms := (rooms s)(roomId u :=
                    (if set_delete sid members = [] then None
                     else Some (set_delete sid members))),
                 users := (users s)(sid := None)\<rparr>
           | None \<Rightarrow>
               if inherited (roomId u) then s else s\<lparr>users := (users s)(sid := None)\<rparr>))"
  by (simp add: disconnect_def Let_def split: option.splits)

lemma inv_disconnect:
  assumes "registry_inv s"
  shows "registry_inv (post (disconnect s sid))"
proof (cases "users s sid")
  case None
  with assms show ?thesis by (simp add: post_disconnect)
next
  case (Some u)
  from inv_room [OF assms Some] obtain members where m: "rooms s (roomId u) = Some members"
    by blast
  show ?thesis unfolding post_disconnect Some m option.case
    by (rule inv_leave [OF assms Some m])
qed

lemma inv_setUserServer:
  "registry_inv s \<Longrightarrow> registry_inv (post (setUserServer s sid v cb))"
  by (auto simp: setUserServer_def Let_def inv_update_user split: option.splits)

lemma inv_setUserLibrary:
  "registry_inv s \<Longrightarrow> registry_inv (post (setUserLibrary s sid v cb))"
  by (auto simp: setUserLibrary_def Let_def inv_update_user split: option.splits)

lemma inv_upvote:
  "registry_inv s \<Longrightarrow> registry_inv (post (upvote s sid mediaId cb))"
  by (auto simp: upvote_def Let_def inv_update_user split: option.splits)

lemma inv_handle:
  "registry_inv s \<Longrightarrow> handle s sid req = Some r \<Longrightarrow> registry_inv (post r)"
  by (cases req)
    (auto simp: inv_createRoom inv_joinRoom inv_disconnect inv_setUserServer
       inv_setUserLibrary inv_upvote requestUserCount_def)

lemma reachable_inv: "reachable s \<Longrightarrow> registry_inv s"
  by (induction rule: reachable.induct) (auto simp: registry_inv_init inv_handle)

subsection \<open>What sequences with a single entry per socket keep\<close>

lemma recorded_member:
  "members_recorded s \<Longrightarrow> rooms s rid = Some members \<Longrightarrow> m \<in> set members \<Longrightarrow>
     \<exists>u. users s m = Some u \<and> roomId u = rid"
  unfolding members_recorded_def by blast

lemma recorded_init: "members_recorded init"
  by (simp add: members_recorded_def init_def)

lemma recorded_enter:
  assumes rec: "members_recorded s"
    and new: "users s sid = None"
    and room: "rooms s rid = Some members \<or> members = []"
    and u': "roomId u' = rid"
  shows "members_recorded (s\<lparr>rooms := (rooms s)(rid \<mapsto> set_add sid members),
                             users := (users s)(sid \<mapsto> u')\<rparr>)"
  unfolding members_recorded_def
proof (intro allI impI)
  fix r ms m
  assume r: "rooms (s\<lparr>rooms := (rooms s)(rid \<mapsto> set_add sid members),
                      users := (users s)(sid \<mapsto> u')\<rparr>) r = Some ms"
    and m: "m \<in> set ms"
  show "\<exists>u. users (s\<lparr>rooms := (rooms s)(rid \<mapsto> set_add sid members),
                      users := (users s)(sid \<mapsto> u')\<rparr>) m = Some u \<and> roomId u = r"
  proof (cases "m = sid")
    case True
    have "r = rid"
    proof (rule ccontr)
      assume "r \<noteq> rid"
      with r have "rooms s r = Some ms" by simp
      from recorded_member [OF rec this m] new True show False by simp
    qed
    with True u' show ?thesis by simp
  next
    case False
    have "\<exists>ms'. rooms s r = Some ms' \<and> m \<in> set ms'"
    proof (cases "r = rid")
      case True
      with r m False have "m \<in> set members" by auto
      with room True show ?thesis by auto
    next
      case False
      with r m show ?thesis by simp
    qed
    then obtain ms' where "rooms s r = Some ms'" "m \<in> set ms'" by blast
    from recorded_member [OF rec this] False show ?thesis by simp
  qed
qed

lemma recorded_update_user:
  assumes "members_recorded s" "users s sid = Some u" "roomId u' = roomId u"
  shows "members_recorded (s\<lparr>users := (users s)(sid \<mapsto> u')\<rparr>)"
  using assms unfolding members_recorded_def
  by (auto split: if_splits) (metis option.inject)

lemma recorded_leave:
  assumes rec: "members_recorded s" and u: "users s sid = Some u"
    and room: "rooms s (roomId u) = Some members"
  shows "members_recorded (s\<lparr>rooms := (rooms s)(roomId u :=
            (if set_delete sid members = [] then None else Some (set_delete sid members))),
          users := (users s)(sid := None)\<rparr>)"
  unfolding members_recorded_def
proof (intro allI impI)
  fix r ms m
  assume r: "rooms (s\<lparr>rooms := (rooms s)(roomId u :=
            (if set_delete sid members = [] then None else Some (set_delete sid members))),
          users := (users s)(sid := None)\<rparr>) r = Some ms"
    and m: "m \<in> set ms"
  have old: "\<exists>ms'. rooms s r = Some ms' \<and> m \<in> set ms' \<and> (r = roomId u \<longrightarrow> m \<noteq> sid)"
  proof (cases "r = roomId u")
    case True
    with r m room show ?thesis by (auto split: if_splits)
  next
    case False
    with r m show ?thesis by simp
  qed
  then obtain ms' where ms': "rooms s r = Some ms'" "m \<in> set ms'"
    and ne: "r = roomId u \<longrightarrow> m \<noteq> sid" by blast
  from recorded_member [OF rec ms'] obtain v where v: "users s m = Some v" "roomId v = r"
    by blast
  with u ne have "m \<noteq> sid" by auto
  with v show "\<exists>v. users (s\<lparr>rooms := (rooms s)(roomId u :=
            (if set_delete sid members = [] then None else Some (set_delete sid members))),
          users := (users s)(sid := None)\<rparr>) m = Some v \<and> roomId v = r"
    by simp
qed

lemma recorded_createRoom:
  assumes "members_recorded s" "users s sid = None" "createRoom s sid ds cb = Some r"
  shows "members_recorded (post r)"
proof -
  from assms(3) obtain rid where g: "generateRoomId s ds = Some rid"
    by (auto simp: createRoom_def split: option.splits)
  from assms(3) g have p: "post r = s\<lparr>rooms := (rooms s)(rid \<mapsto> set_add sid []),
      users := (users s)(sid \<mapsto> createUser rid)\<rparr>"
    by (auto simp: createRoom_def Let_def split: if_splits)
  show ?thesis unfolding p
    by (rule recorded_enter [OF assms(1,2)]) (simp_all add: createUser_def)
qed

lemma recorded_joinRoom:
  assumes "members_recorded s" "users s sid = None"
  shows "members_recorded (post (joinRoom s sid rid cb))"
proof (cases "rooms s rid")
  case None
  with assms show ?thesis by (simp add: post_joinRoom)
next
  case (Some members)
  show ?thesis unfolding post_joinRoom Some option.case
    by (rule recorded_enter [OF assms])
      (simp_all add: Some createUser_def split: option.splits completion.splits prod.splits)
qed

lemma recorded_disconnect:
  assumes "registry_inv s" "members_recorded s"
  shows "members_recorded (post (disconnect s sid))"
proof (cases "users s sid")
  case None
  with assms show ?thesis by (simp add: post_disconnect)
next
  case (Some u)
  from inv_room [OF assms(1) Some] obtain members where m: "rooms s (roomId u) = Some members"
    by blast
  show ?thesis unfolding post_disconnect Some m option.case
    by (rule recorded_leave [OF assms(2) Some m])
qed

lemma recorded_setUserServer:
  "members_recorded s \<Longrightarrow> members_recorded (post (setUserServer s sid v cb))"
  by (auto simp: setUserServer_def Let_def recorded_update_user split: option.splits)

lemma recorded_setUserLibrary:
  "members_recorded s \<Longrightarrow> members_recorded (post (setUserLibrary s sid v cb))"
  by (auto simp: setUserLibrary_def Let_def recorded_update_user split: option.splits)

lemma recorded_upvote:
  "members_recorded s \<Longrightarrow> members_recorded (post (upvote s sid mediaId cb))"
  by (auto simp: upvote_def Let_def recorded_update_user split: option.splits)

lemma recorded_handle:
  assumes "registry_inv s" "members_recorded s" "handle s sid req = Some r"
    and "enters req \<Longrightarrow> users s sid = None"
  shows "members_recorded (post r)"
  using assms
  by (cases req)
    (auto simp: recorded_createRoom recorded_joinRoom recorded_disconnect
       recorded_setUserServer recorded_setUserLibrary recorded_upvote requestUserCount_def)

lemma once_reachable: "reachable_once s \<Longrightarrow> reachable s"
  by (induction rule: reachable_once.induct) (auto intro: reachable.intros)

lemma once_recorded: "reachable_once s \<Longrightarrow> members_recorded s"
proof (induction rule: reachable_once.induct)
  case once_init
  show ?case by (rule recorded_init)
next
  case (once_step s sid req r)
  from once_step.hyps(1) have "registry_inv s"
    by (simp add: once_reachable reachable_inv)
  with once_step show ?case by (blast intro: recorded_handle)
qed

subsection \<open>Given sequences reach reachable states\<close>

lemma run_reachable:
  "run once s evs = Some s' \<Longrightarrow> reachable s \<Longrightarrow> reachable s'"
  by (induction once s evs rule: run.induct)
    (auto split: if_splits option.splits intro: reachable_step)

lemma run_reachable_once:
  "run True s evs = Some s' \<Longrightarrow> reachable_once s \<Longrightarrow> reachable_once s'"
proof (induction evs arbitrary: s)
  case Nil
  then show ?case by simp
next
  case (Cons ev evs)
  obtain sid req where ev: "ev = (sid, req)" by (cases ev)
  from Cons.prems(1) ev obtain r where r: "handle s sid req = Some r"
    and ok: "enters req \<Longrightarrow> users s sid = None" and rest: "run True (post r) evs = Some s'"
    by (auto split: if_splits option.splits)
  from once_step [OF Cons.prems(2) r ok] have "reachable_once (post r)" by simp
  from Cons.IH [OF rest this] show ?case .
qed

lemma reachable_after: "reachable (after once evs)"
  by (auto simp: after_def reachable_init split: option.splits
      intro: run_reachable [OF _ reachable_init])

lemma reachable_once_after: "reachable_once (after True evs)"
  by (auto simp: after_def once_init split: option.splits
      intro: run_reachable_once [OF _ once_init])

subsection \<open>The consensus check and the other handlers\<close>

lemma every_upvoted_True:
  "every_upvoted s mediaId ms = Normal True \<longleftrightarrow>
     (\<forall>m\<in>set ms. \<exists>um. users s m = Some um \<and> mediaId \<in> set (upvoted um))"
  by (induction ms) (auto split: option.splits)

lemma every_upvoted_total:
  "(\<forall>m\<in>set ms. users s m \<noteq> None) \<Longrightarrow> every_upvoted s mediaId ms \<noteq> Throw"
  by (induction ms) (auto split: option.splits)

lemma checkConsensus_live:
  "rooms s rid = Some members \<Longrightarrow>
     checkConsensus s rid mediaId =
       (if every_upvoted s mediaId members = Normal True
        then [Emit rid (ConsensusReached mediaId)] else [],
        every_upvoted s mediaId members = Throw)"
  by (cases "every_upvoted s mediaId members")
    (auto simp: checkConsensus_def usersInRoom_def)

lemma checkConsensus_gone:
  "rooms s rid = None \<Longrightarrow> \<not> inherited rid \<Longrightarrow> checkConsensus s rid mediaId = ([], False)"
  by (simp add: checkConsensus_def)

lemma reachable_roomId_own:
  assumes "reachable s" "users s sid = Some u"
  shows "\<not> inherited (roomId u)"
proof -
  from assms(1) have inv: "registry_inv s" by (rule reachable_inv)
  from inv_room [OF inv assms(2)] obtain members where "rooms s (roomId u) = Some members"
    by blast
  from inv_live [OF inv this] have "length (roomId u) = 4" by simp
  with inherited_length show ?thesis by blast
qed

lemma isObject_iff: "isObject v \<longleftrightarrow> (\<exists>kvs. v = JObj kvs)"
  by (cases v) (simp_all add: isObject_def)

lemma joinRoom_unknown_room:
  "rooms s rid = None \<Longrightarrow> \<not> inherited rid \<Longrightarrow>
     joinRoom s sid rid True =
       \<lparr>post = s,
        out = [Callback (StatusReply False (''Unable to find room with the Id: '' @ rid))],
        threw = False\<rparr>"
  by (simp add: joinRoom_def)

lemma createRoom_counts:
  "createRoom s sid ds cb = Some r \<Longrightarrow> Emit room (UserCount n) \<in> set (out r) \<Longrightarrow> 0 < n"
  by (auto simp: createRoom_def Let_def emitRoomUserCount_def room_count_def set_add_def
      split: option.splits if_splits)

lemma joinRoom_counts:
  "Emit room (UserCount n) \<in> set (out (joinRoom s sid rid cb)) \<Longrightarrow> 0 < n"
  by (auto simp: joinRoom_def Let_def emitRoomUserCount_def room_count_def set_add_def
      split: option.splits if_splits completion.splits prod.splits)

lemma disconnect_counts:
  "Emit room (UserCount n) \<in> set (out (disconnect s sid)) \<Longrightarrow> 0 < n"
  by (auto simp: disconnect_def Let_def emitRoomUserCount_def room_count_def
      split: option.splits if_splits)

lemma other_counts:
  "Emit room (UserCount n) \<notin> set (out (setUserServer s sid v cb))"
  "Emit room (UserCount n) \<notin> set (out (setUserLibrary s sid v cb))"
  "Emit room (UserCount n) \<notin> set (out (upvote s sid mediaId cb))"
  by (auto simp: setUserServer_def setUserLibrary_def upvote_def checkConsensus_def Let_def
      split: option.splits if_splits completion.splits)

subsection \<open>The upvoted set of a record that is kept\<close>

text \<open>A handler writes \<open>users[socket.id]\<close> only; an item in a socket's upvoted set stays
  there until the socket enters a room again or disconnects.\<close>

lemma post_createRoom:
  "createRoom s x ds cb = Some r \<Longrightarrow>
     \<exists>rid. post r = s\<lparr>rooms := (rooms s)(rid \<mapsto> set_add x []),
                       users := (users s)(x \<mapsto> createUser rid)\<rparr>"
  by (auto simp: createRoom_def Let_def split: option.splits if_splits)

lemma upvoted_kept_handle:
  assumes u: "users s sid = Some u" and i: "mediaId \<in> set (upvoted u)"
    and h: "handle s x req = Some r"
    and k: "x \<noteq> sid \<or> (\<not> enters req \<and> req \<noteq> Disconnect)"
  shows "\<exists>u'. users (post r) sid = Some u' \<and> mediaId \<in> set (upvoted u')"
proof (cases req)
  case (CreateRoom ds cb)
  with h k have "createRoom s x ds cb = Some r" "x \<noteq> sid" by auto
  from post_createRoom [OF this(1)] this(2) u i show ?thesis by auto
next
  case (JoinRoom rid cb)
  with h k have "r = joinRoom s x rid cb" "x \<noteq> sid" by auto
  with u i show ?thesis by (auto simp: post_joinRoom split: option.splits)
next
  case (SetUserServer v cb)
  with h u i show ?thesis
    by (auto simp: setUserServer_def Let_def split: option.splits)
next
  case (SetUserLibrary v cb)
  with h u i show ?thesis
    by (auto simp: setUserLibrary_def Let_def split: option.splits)
next
  case (RequestUserCount rid)
  with h u i show ?thesis by (auto simp: requestUserCount_def)
next
  case (Upvote m cb)
  with h u i show ?thesis
    by (auto simp: upvote_def Let_def split: option.splits)
next
  case Disconnect
  with h k have "r = disconnect s x" "x \<noteq> sid" by auto
  with u i show ?thesis by (auto simp: post_disconnect split: option.splits)
qed

lemma upvoted_kept_run:
  "users s sid = Some u \<Longrightarrow> mediaId \<in> set (upvoted u) \<Longrightarrow> keeps_record sid evs \<Longrightarrow>
     run once s evs = Some s' \<Longrightarrow>
     \<exists>u'. users s' sid = Some u' \<and> mediaId \<in> set (upvoted u')"
proof (induction evs arbitrary: s u)
  case Nil
  then show ?case by simp
next
  case (Cons ev evs)
  obtain x req where ev: "ev = (x, req)" by (cases ev)
  from Cons.prems(4) ev obtain r where r: "handle s x req = Some r"
    and rest: "run once (post r) evs = Some s'"
    by (auto split: if_splits option.splits)
  from Cons.prems(3) ev have k: "x \<noteq> sid \<or> (\<not> enters req \<and> req \<noteq> Disconnect)"
    and ks: "keeps_record sid evs" by simp_all
  from upvoted_kept_handle [OF Cons.prems(1,2) r k]
  obtain u' where "users (post r) sid = Some u'" "mediaId \<in> set (upvoted u')" by blast
  from Cons.IH [OF this ks rest] show ?case .
qed

lemma upvoted_after_vote:
  "users s sid = Some u \<Longrightarrow>
     \<exists>u'. users (post (upvote s sid mediaId cb)) sid = Some u' \<and> mediaId \<in> set (upvoted u')"
  by (auto simp: upvote_def Let_def)

subsection \<open>The example sessions, evaluated\<close>

lemmas evaluate = after_def init_def createRoom_def joinRoom_def disconnect_def upvote_def
  setUserServer_def setUserLibrary_def requestUserCount_def checkConsensus_def
  getPlexInformationForRoom_def emitRoomUserCount_def room_count_def usersInRoom_def
  set_add_def set_delete_def createUser_def getIdString_def hex_byte_def hex_digit_def
  inherited_def object_prototype_def isObject_def Let_def plex_server_def movies_def

lemma hosted_state:
  "after True hosted =
     \<lparr>rooms = [''0001'' \<mapsto> [''A'']],
      users = [''A'' \<mapsto> \<lparr>roomId = ''0001'', server = plex_server, library = movies,
                          upvoted = []\<rparr>]\<rparr>"
  by (simp add: hosted_def evaluate)

lemma lobby_state:
  "after True lobby =
     \<lparr>rooms = [''0001'' \<mapsto> [''A'', ''B'']],
      users = [''A'' \<mapsto> \<lparr>roomId = ''0001'', server = plex_server, library = movies,
                          upvoted = []\<rparr>,
               ''B'' \<mapsto> \<lparr>roomId = ''0001'', server = plex_server, library = movies,
                          upvoted = []\<rparr>]\<rparr>"
  by (simp add: lobby_def evaluate)

lemma voted_state:
  "after True voted =
     \<lparr>rooms = [''0001'' \<mapsto> [''A'', ''B'']],
      users = [''B'' \<mapsto> \<lparr>roomId = ''0001'', server = plex_server, library = movies,
                          upvoted = []\<rparr>,
               ''A'' \<mapsto> \<lparr>roomId = ''0001'', server = plex_server, library = movies,
                          upvoted = [IStr ''42'']\<rparr>]\<rparr>"
  by (simp add: voted_def evaluate fun_upd_twist)

lemma two_rooms_state:
  "after False two_rooms =
     \<lparr>rooms = [''0001'' \<mapsto> [''A''], ''0002'' \<mapsto> [''A'']],
      users = [''A'' \<mapsto> \<lparr>roomId = ''0002'', server = JStr [], library = JStr [],
                          upvoted = []\<rparr>]\<rparr>"
  by (simp add: two_rooms_def evaluate)

lemma abandoned_state:
  "after False abandoned = \<lparr>rooms = [''0001'' \<mapsto> [''A'']], users = Map.empty\<rparr>"
  by (simp add: abandoned_def evaluate)

lemma stale_state:
  "after False stale =
     \<lparr>rooms = [''0001'' \<mapsto> [''A'', ''B'']],
      users = [''B'' \<mapsto> \<lparr>roomId = ''0001'', server = JStr [], library = JStr [],
                          upvoted = []\<rparr>]\<rparr>"
  by (simp add: stale_def evaluate)

lemma returns_two_rooms: "returns init two_rooms"
  by (simp add: two_rooms_def evaluate)

lemma returns_abandoned: "returns init abandoned"
  by (simp add: abandoned_def evaluate)

lemma returns_stale: "returns init stale"
  by (simp add: stale_def evaluate)

lemma revoted_state:
  "after False revoted =
     \<lparr>rooms = [''0001'' \<mapsto> [''A'']],
      users = [''A'' \<mapsto> \<lparr>roomId = ''0001'', server = JStr [], library = JStr [],
                          upvoted = []\<rparr>]\<rparr>"
  by (simp add: revoted_def evaluate)

lemma created_state:
  "after False created =
     \<lparr>rooms = [''0001'' \<mapsto> [''A'']],
      users = [''A'' \<mapsto> \<lparr>roomId = ''0001'', server = JStr [], library = JStr [],
                          upvoted = []\<rparr>]\<rparr>"
  by (simp add: created_def evaluate)

lemma returns_revoted: "returns init revoted"
  by (simp add: revoted_def evaluate)

lemma between_run:
  "run False (post (upvote (after True lobby) ''A'' (IStr ''42'') True)) between = Some later"
  by (simp add: between_def later_def)

section \<open>The claims\<close>

text \<open>
  Claim C1. For a socket with a record and an item not yet in its upvoted set, \<open>upvote\<close>
  adds the item to that set (and to nothing else), acknowledges if asked, and then checks
  consensus: when the record's room is live, \<open>ConsensusReached\<close> for the item is emitted
  to that room exactly if every member of the room has a record whose upvoted set, after
  the addition, holds the item; when the room is gone the check does nothing. (The room id
  of a record is never a name inherited from \<open>Object.prototype\<close>:
  \<open>reachable_roomId_own\<close>.)
\<close>

theorem upvote_new_item:
  assumes u: "users s sid = Some u" and new: "mediaId \<notin> set (upvoted u)"
  shows "post (upvote s sid mediaId cb) =
           s\<lparr>users := (users s)(sid \<mapsto> u\<lparr>upvoted := upvoted u @ [mediaId]\<rparr>)\<rparr> \<and>
         (\<forall>members. rooms s (roomId u) = Some members \<longrightarrow>
            out (upvote s sid mediaId cb) =
              (if cb then [Callback (StatusReply True ''Upvoted successfully.'')] else []) @
              (if \<forall>m\<in>set members. \<exists>um.
                    users (post (upvote s sid mediaId cb)) m = Some um \<and>
                    mediaId \<in> set (upvoted um)
               then [Emit (roomId u) (ConsensusReached mediaId)] else [])) \<and>
         (rooms s (roomId u) = None \<and> \<not> inherited (roomId u) \<longrightarrow>
            out (upvote s sid mediaId cb) =
              (if cb then [Callback (StatusReply True ''Upvoted successfully.'')] else []) \<and>
            \<not> threw (upvote s sid mediaId cb))"
proof (intro conjI allI impI)
  show p: "post (upvote s sid mediaId cb) =
           s\<lparr>users := (users s)(sid \<mapsto> u\<lparr>upvoted := upvoted u @ [mediaId]\<rparr>)\<rparr>"
    using u new by (simp add: upvote_def Let_def set_add_def)
  {
    fix members
    assume r: "rooms s (roomId u) = Some members"
    then have r': "rooms (post (upvote s sid mediaId cb)) (roomId u) = Some members"
      by (simp add: p)
    have "out (upvote s sid mediaId cb) =
        (if cb then [Callback (StatusReply True ''Upvoted successfully.'')] else []) @
        fst (checkConsensus (post (upvote s sid mediaId cb)) (roomId u) mediaId)"
      using u new unfolding p by (simp add: upvote_def Let_def set_add_def)
    then show "out (upvote s sid mediaId cb) =
              (if cb then [Callback (StatusReply True ''Upvoted successfully.'')] else []) @
              (if \<forall>m\<in>set members. \<exists>um.
                    users (post (upvote s sid mediaId cb)) m = Some um \<and>
                    mediaId \<in> set (upvoted um)
               then [Emit (roomId u) (ConsensusReached mediaId)] else [])"
      by (simp only: checkConsensus_live [OF r'] every_upvoted_True fst_conv)
  }
  {
    assume r: "rooms s (roomId u) = None \<and> \<not> inherited (roomId u)"
    then have c: "checkConsensus
        (s\<lparr>users := (users s)(sid \<mapsto> u\<lparr>upvoted := upvoted u @ [mediaId]\<rparr>)\<rparr>)
        (roomId u) mediaId = ([], False)"
      by (simp add: checkConsensus_gone)
    show "out (upvote s sid mediaId cb) =
              (if cb then [Callback (StatusReply True ''Upvoted successfully.'')] else [])"
      using u new c by (simp add: upvote_def Let_def set_add_def)
    show "\<not> threw (upvote s sid mediaId cb)"
      using u new c by (simp add: upvote_def Let_def set_add_def)
  }
qed

text \<open>In the lobby of \<open>A\<close> and \<open>B\<close>: nothing but the acknowledgement after \<open>A\<close>'s vote
  for \<open>"42"\<close>, consensus after \<open>B\<close>'s.\<close>

theorem upvote_new_item_witness:
  "users (after True lobby) ''A'' =
     Some \<lparr>roomId = ''0001'', server = plex_server, library = movies, upvoted = []\<rparr> \<and>
   rooms (after True lobby) ''0001'' = Some [''A'', ''B''] \<and>
   out (upvote (after True lobby) ''A'' (IStr ''42'') True) =
     [Callback (StatusReply True ''Upvoted successfully.'')] \<and>
   users (after True voted) ''B'' =
     Some \<lparr>roomId = ''0001'', server = plex_server, library = movies, upvoted = []\<rparr> \<and>
   rooms (after True voted) ''0001'' = Some [''A'', ''B''] \<and>
   out (upvote (after True voted) ''B'' (IStr ''42'') True) =
     [Callback (StatusReply True ''Upvoted successfully.''),
      Emit ''0001'' (ConsensusReached (IStr ''42''))]"
proof -
  let ?u = "\<lparr>roomId = ''0001'', server = plex_server, library = movies, upvoted = []\<rparr>"
  have a: "users (after True lobby) ''A'' = Some ?u" by (simp add: lobby_state)
  have b: "users (after True voted) ''B'' = Some ?u" by (simp add: voted_state)
  have n: "IStr ''42'' \<notin> set (upvoted ?u)" by simp
  have ra: "rooms (after True lobby) ''0001'' = Some [''A'', ''B'']" by (simp add: lobby_state)
  have rb: "rooms (after True voted) ''0001'' = Some [''A'', ''B'']" by (simp add: voted_state)
  from upvote_new_item [OF a n, of True] ra
  have oa: "out (upvote (after True lobby) ''A'' (IStr ''42'') True) =
     [Callback (StatusReply True ''Upvoted successfully.'')]"
    by (simp add: lobby_state)
  from upvote_new_item [OF b n, of True] rb
  have ob: "out (upvote (after True voted) ''B'' (IStr ''42'') True) =
     [Callback (StatusReply True ''Upvoted successfully.''),
      Emit ''0001'' (ConsensusReached (IStr ''42''))]"
    by (simp add: voted_state)
  from a b ra rb oa ob show ?thesis by simp
qed

text \<open>
  Claim C2, as stated, fails: a second upvote of the same item by the same socket can
  trigger \<open>ConsensusReached\<close> again. \<open>joinRoom\<close> replaces the socket's record by a
  new one with an empty upvoted set, also when the socket is already in the room. Alone in
  its room, \<open>A\<close> upvotes \<open>"42"\<close> (consensus is emitted), joins the room again, and
  upvotes \<open>"42"\<close> again: the vote is acknowledged and consensus is emitted a second
  time. No handler throws on the way.
\<close>

theorem revote_after_rejoin_retriggers:
  "returns init revoted \<and> reachable (after False revoted) \<and>
   out (upvote (after False created) ''A'' (IStr ''42'') True) =
     [Callback (StatusReply True ''Upvoted successfully.''),
      Emit ''0001'' (ConsensusReached (IStr ''42''))] \<and>
   out (upvote (after False revoted) ''A'' (IStr ''42'') True) =
     [Callback (StatusReply True ''Upvoted successfully.''),
      Emit ''0001'' (ConsensusReached (IStr ''42''))]"
proof -
  have "out (upvote (after False created) ''A'' (IStr ''42'') True) =
     [Callback (StatusReply True ''Upvoted successfully.''),
      Emit ''0001'' (ConsensusReached (IStr ''42''))]"
    and "out (upvote (after False revoted) ''A'' (IStr ''42'') True) =
     [Callback (StatusReply True ''Upvoted successfully.''),
      Emit ''0001'' (ConsensusReached (IStr ''42''))]"
    by (simp_all add: created_state revoted_state upvote_def checkConsensus_def
        usersInRoom_def set_add_def Let_def)
  with returns_revoted reachable_after [of False revoted] show ?thesis by blast
qed

text \<open>
  Claim C2, amended. For a socket with a record, an upvote of an item that is in the
  record's upvoted set changes nothing: the registry is the same, nothing is acknowledged
  or emitted, the handler returns. And once a socket with a record has upvoted an item,
  then after any sequence of events, from any sockets, in which that socket neither sends
  \<open>createRoom\<close> or \<open>joinRoom\<close> nor disconnects, the item is still in its upvoted set
  and an upvote of it by that socket is again such a no-op: it does not trigger
  \<open>ConsensusReached\<close> again.
\<close>

theorem upvote_repeated:
  "(users s sid = Some u \<and> mediaId \<in> set (upvoted u) \<longrightarrow>
      upvote s sid mediaId cb = \<lparr>post = s, out = [], threw = False\<rparr>) \<and>
   (users s sid = Some u \<and> keeps_record sid evs \<and>
    run False (post (upvote s sid mediaId cb)) evs = Some s' \<longrightarrow>
      (\<exists>u'. users s' sid = Some u' \<and> mediaId \<in> set (upvoted u')) \<and>
      upvote s' sid mediaId cb' = \<lparr>post = s', out = [], threw = False\<rparr>)"
proof (intro conjI impI)
  assume "users s sid = Some u \<and> mediaId \<in> set (upvoted u)"
  then show "upvote s sid mediaId cb = \<lparr>post = s, out = [], threw = False\<rparr>"
    by (simp add: upvote_def)
next
  assume h: "users s sid = Some u \<and> keeps_record sid evs \<and>
    run False (post (upvote s sid mediaId cb)) evs = Some s'"
  from upvoted_after_vote [of s sid u mediaId cb] h
  obtain u1 where u1: "users (post (upvote s sid mediaId cb)) sid = Some u1"
    "mediaId \<in> set (upvoted u1)" by blast
  from upvoted_kept_run [OF u1] h
  show kept: "\<exists>u'. users s' sid = Some u' \<and> mediaId \<in> set (upvoted u')" by blast
  then show "upvote s' sid mediaId cb' = \<lparr>post = s', out = [], threw = False\<rparr>"
    by (auto simp: upvote_def)
qed

text \<open>In the lobby \<open>A\<close> votes for \<open>"42"\<close>; after the events of \<open>between\<close> the vote
  is still there and voting again is silent.\<close>

theorem upvote_repeated_witness:
  "users (after True lobby) ''A'' =
     Some \<lparr>roomId = ''0001'', server = plex_server, library = movies, upvoted = []\<rparr> \<and>
   keeps_record ''A'' between \<and>
   run False (post (upvote (after True lobby) ''A'' (IStr ''42'') True)) between = Some later \<and>
   (\<exists>u'. users later ''A'' = Some u' \<and> IStr ''42'' \<in> set (upvoted u')) \<and>
   upvote later ''A'' (IStr ''42'') True = \<lparr>post = later, out = [], threw = False\<rparr>"
proof -
  let ?u = "\<lparr>roomId = ''0001'', server = plex_server, library = movies, upvoted = []\<rparr>"
  have a: "users (after True lobby) ''A'' = Some ?u" by (simp add: lobby_state)
  have k: "keeps_record ''A'' between" by (simp add: between_def)
  note t = upvote_repeated [of "after True lobby" "''A''" ?u "IStr ''42''" True between later
      True, THEN conjunct2, rule_format, OF conjI [OF a conjI [OF k between_run]]]
  from a k between_run t show ?thesis
    by (intro conjI) (rule a k between_run t [THEN conjunct1] t [THEN conjunct2])+
qed

text \<open>
  Claim C3, as stated, fails: nothing makes a socket leave its room when it sends
  \<open>createRoom\<close> or \<open>joinRoom\<close> again. After \<open>A\<close> has created two rooms it is a member
  of both.
\<close>

theorem socket_in_two_rooms:
  "returns init two_rooms \<and> reachable (after False two_rooms) \<and>
   rooms (after False two_rooms) ''0001'' = Some [''A''] \<and>
   rooms (after False two_rooms) ''0002'' = Some [''A''] \<and>
   ''A'' \<in> set [''A''] \<and> ''0001'' \<noteq> ''0002''"
proof -
  have "rooms (after False two_rooms) ''0001'' = Some [''A'']"
    and "rooms (after False two_rooms) ''0002'' = Some [''A'']"
    and "''A'' \<in> set [''A'']" and "''0001'' \<noteq> ''0002''"
    by (simp_all add: two_rooms_state)
  with returns_two_rooms reachable_after [of False two_rooms] show ?thesis by blast
qed

text \<open>
  Claim C3, amended. In every state reached by sequences in which a socket sends
  \<open>createRoom\<close> or \<open>joinRoom\<close> only while it has no record, a socket id is in at most
  one live room, and the room its record names is live, contains it, and is the only
  live room that does.
\<close>

theorem member_in_one_room:
  assumes "reachable_once s"
  shows "(rooms s r1 = Some ms1 \<and> m \<in> set ms1 \<and> rooms s r2 = Some ms2 \<and> m \<in> set ms2
            \<longrightarrow> r1 = r2) \<and>
         (users s m = Some u \<longrightarrow>
            (\<exists>ms. rooms s (roomId u) = Some ms \<and> m \<in> set ms) \<and>
            (\<forall>r ms. rooms s r = Some ms \<and> m \<in> set ms \<longrightarrow> r = roomId u))"
proof -
  from assms have rec: "members_recorded s" by (rule once_recorded)
  from assms have inv: "registry_inv s" by (simp add: once_reachable reachable_inv)
  have one: "r = r'"
    if "rooms s r = Some ms" "m \<in> set ms" "rooms s r' = Some ms'" "m \<in> set ms'"
    for r r' ms ms'
    using recorded_member [OF rec that(1,2)] recorded_member [OF rec that(3,4)] by auto
  have two: "r = roomId u" if "users s m = Some u" "rooms s r = Some ms" "m \<in> set ms" for r ms
    using recorded_member [OF rec that(2,3)] that(1) by auto
  show ?thesis using one two inv_room [OF inv] by blast
qed

theorem member_in_one_room_witness:
  "reachable_once (after True lobby) \<and>
   users (after True lobby) ''B'' =
     Some \<lparr>roomId = ''0001'', server = plex_server, library = movies, upvoted = []\<rparr> \<and>
   (\<exists>ms. rooms (after True lobby) ''0001'' = Some ms \<and> ''B'' \<in> set ms)"
proof -
  let ?u = "\<lparr>roomId = ''0001'', server = plex_server, library = movies, upvoted = []\<rparr>"
  have b: "users (after True lobby) ''B'' = Some ?u" by (simp add: lobby_state)
  from member_in_one_room [OF reachable_once_after, of lobby "''0001''" "[''A'', ''B'']"
      "''B''" "''0001''" "[''A'', ''B'']" ?u] b
  have "\<exists>ms. rooms (after True lobby) ''0001'' = Some ms \<and> ''B'' \<in> set ms" by simp
  with b reachable_once_after show ?thesis by simp
qed

text \<open>
  Claim C4, as stated, fails. When \<open>A\<close>, in a room with \<open>B\<close>, creates a second room and
  disconnects, only the second room forgets it: the first still lists \<open>A\<close>, which has no
  record any more, and the consensus check of \<open>B\<close>'s next upvote reads
  \<open>users[A].upvoted\<close> and throws.
\<close>

theorem stale_member_breaks_consensus_check:
  "returns init stale \<and> reachable (after False stale) \<and>
   rooms (after False stale) ''0001'' = Some [''A'', ''B''] \<and>
   users (after False stale) ''A'' = None \<and>
   threw (upvote (after False stale) ''B'' (IStr ''42'') True)"
proof -
  have "rooms (after False stale) ''0001'' = Some [''A'', ''B'']"
    and "users (after False stale) ''A'' = None"
    and "threw (upvote (after False stale) ''B'' (IStr ''42'') True)"
    by (simp_all add: stale_state upvote_def checkConsensus_def usersInRoom_def set_add_def
        Let_def)
  with returns_stale reachable_after [of False stale] show ?thesis by blast
qed

text \<open>
  Claim C4, amended. In every state reached by sequences in which a socket sends
  \<open>createRoom\<close> or \<open>joinRoom\<close> only while it has no record, every member of a live room
  has a record; so the scan of the consensus check finds a record for every member, and
  neither \<open>checkConsensus\<close> on a record's room nor \<open>upvote\<close> by a socket with a record
  throws.
\<close>

theorem members_have_records:
  assumes "reachable_once s"
  shows "(rooms s rid = Some members \<and> m \<in> set members \<longrightarrow> users s m \<noteq> None) \<and>
         (rooms s rid = Some members \<longrightarrow> every_upvoted s mediaId members \<noteq> Throw) \<and>
         (users s sid = Some u \<longrightarrow> \<not> snd (checkConsensus s (roomId u) mediaId)) \<and>
         (users s sid \<noteq> None \<longrightarrow> \<not> threw (upvote s sid mediaId cb))"
proof -
  have all: "\<not> snd (checkConsensus t (roomId v) i)"
    if t: "reachable_once t" and v: "users t x = Some v" for t x v i
  proof -
    from t have rec: "members_recorded t" by (rule once_recorded)
    from t have inv: "registry_inv t" by (simp add: once_reachable reachable_inv)
    from inv_room [OF inv v] obtain ms where ms: "rooms t (roomId v) = Some ms" by blast
    have "\<forall>m\<in>set ms. users t m \<noteq> None"
      using recorded_member [OF rec ms] by auto
    from every_upvoted_total [OF this] show ?thesis
      by (simp add: checkConsensus_live [OF ms])
  qed
  from assms have rec: "members_recorded s" by (rule once_recorded)
  have a: "users s m \<noteq> None" if "rooms s rid = Some members" "m \<in> set members"
    using recorded_member [OF rec that] by auto
  have b: "every_upvoted s mediaId members \<noteq> Throw" if r: "rooms s rid = Some members"
  proof -
    have "\<forall>m\<in>set members. users s m \<noteq> None"
      using recorded_member [OF rec r] by auto
    then show ?thesis by (rule every_upvoted_total)
  qed
  have d: "\<not> threw (upvote s sid mediaId cb)" if "users s sid \<noteq> None"
  proof -
    from that obtain v where v: "users s sid = Some v" by blast
    show ?thesis
    proof (cases "mediaId \<in> set (upvoted v)")
      case True
      with v show ?thesis by (simp add: upvote_def)
    next
      case False
      let ?t = "post (upvote s sid mediaId cb)"
      have "handle s sid (Upvote mediaId cb) = Some (upvote s sid mediaId cb)" by simp
      from once_step [OF assms this] have t: "reachable_once ?t" by simp
      from v False
      have p: "?t = s\<lparr>users := (users s)(sid \<mapsto> v\<lparr>upvoted := set_add mediaId (upvoted v)\<rparr>)\<rparr>"
        by (simp add: upvote_def Let_def)
      then have "users ?t sid = Some (v\<lparr>upvoted := set_add mediaId (upvoted v)\<rparr>)" by simp
      from all [OF t this] have "\<not> snd (checkConsensus ?t (roomId v) mediaId)" by simp
      with v False show ?thesis unfolding p by (simp add: upvote_def Let_def)
    qed
  qed
  from a b all [OF assms] d show ?thesis by blast
qed

theorem members_have_records_witness:
  "reachable_once (after True voted) \<and>
   rooms (after True voted) ''0001'' = Some [''A'', ''B''] \<and>
   ''B'' \<in> set [''A'', ''B''] \<and>
   users (after True voted) ''B'' =
     Some \<lparr>roomId = ''0001'', server = plex_server, library = movies, upvoted = []\<rparr> \<and>
   every_upvoted (after True voted) (IStr ''42'') [''A'', ''B''] = Normal False \<and>
   \<not> threw (upvote (after True voted) ''B'' (IStr ''42'') True)"
proof -
  let ?u = "\<lparr>roomId = ''0001'', server = plex_server, library = movies, upvoted = []\<rparr>"
  have b: "users (after True voted) ''B'' = Some ?u" by (simp add: voted_state)
  have r: "rooms (after True voted) ''0001'' = Some [''A'', ''B'']" by (simp add: voted_state)
  have e: "every_upvoted (after True voted) (IStr ''42'') [''A'', ''B''] = Normal False"
    by (simp add: voted_state)
  from members_have_records [OF reachable_once_after, of voted "''0001''" "[''A'', ''B'']"
      "''B''" "IStr ''42''" "''B''" ?u True] b
  have "\<not> threw (upvote (after True voted) ''B'' (IStr ''42'') True)" by simp
  with b r e reachable_once_after show ?thesis by simp
qed

text \<open>
  Claim C5 does not hold of the code. With no record for the socket and no acknowledgement
  function, \<open>upvote\<close> calls the missing callback and throws; the branch for a new vote
  tests \<open>typeof callback == "function"\<close> first, this one does not.
\<close>

theorem upvote_without_record_or_callback_throws:
  "upvote init ''A'' (IStr ''42'') False = \<lparr>post = init, out = [], threw = True\<rparr>"
  by (simp add: upvote_def init_def)

text \<open>
  Claim C6, as stated, fails: a join of a live room does not always succeed. After \<open>A\<close>
  has created two rooms and disconnected, room \<open>0001\<close> still lists \<open>A\<close>, whose record is
  gone; when \<open>B\<close> joins it, \<open>getPlexInformationForRoom\<close> reads \<open>roomOwner.server\<close> of
  \<open>undefined\<close> and throws before any reply.
\<close>

theorem join_of_abandoned_room_throws:
  "returns init abandoned \<and> reachable (after False abandoned) \<and>
   rooms (after False abandoned) ''0001'' = Some [''A''] \<and>
   users (after False abandoned) ''B'' = None \<and>
   out (joinRoom (after False abandoned) ''B'' ''0001'' True) = [] \<and>
   threw (joinRoom (after False abandoned) ''B'' ''0001'' True)"
proof -
  have "rooms (after False abandoned) ''0001'' = Some [''A'']"
    and "users (after False abandoned) ''B'' = None"
    and "out (joinRoom (after False abandoned) ''B'' ''0001'' True) = []"
    and "threw (joinRoom (after False abandoned) ''B'' ''0001'' True)"
    by (simp_all add: abandoned_state joinRoom_def getPlexInformationForRoom_def set_add_def
        Let_def)
  with returns_abandoned reachable_after [of False abandoned] show ?thesis by blast
qed

text \<open>
  Claim C6, amended. For a live room whose earliest member \<open>a\<close> has a record, a join by
  another socket \<open>b\<close> (with an acknowledgement function) succeeds: the reply carries
  \<open>a\<close>'s current server and library, \<open>b\<close>'s new record stores the same two values, \<open>b\<close>
  is added to the room and the new member count is emitted. When \<open>b\<close> itself is the
  earliest member, its record is made anew and the reply carries the empty strings of
  that record. Round trip: when \<open>a\<close>, alone in the room, has set its server and its
  library, the reply to \<open>b\<close>'s join carries exactly the two values set.
\<close>

theorem joinRoom_copies_descriptors:
  "(rooms s rid = Some (a # rest) \<and> a \<noteq> b \<and> users s a = Some owner \<longrightarrow>
      joinRoom s b rid True =
        \<lparr>post = s\<lparr>rooms := (rooms s)(rid \<mapsto> set_add b (a # rest)),
                  users := (users s)(b \<mapsto> \<lparr>roomId = rid, server = server owner,
                                             library = library owner, upvoted = []\<rparr>)\<rparr>,
         out = [Callback (JoinReply (server owner) (library owner)),
                Emit rid (UserCount (int (length (set_add b (a # rest)))))],
         threw = False\<rparr>) \<and>
   (rooms s rid = Some (b # rest) \<longrightarrow>
      joinRoom s b rid True =
        \<lparr>post = s\<lparr>rooms := (rooms s)(rid \<mapsto> b # rest),
                  users := (users s)(b \<mapsto> \<lparr>roomId = rid, server = JStr [],
                                             library = JStr [], upvoted = []\<rparr>)\<rparr>,
         out = [Callback (JoinReply (JStr []) (JStr [])),
                Emit rid (UserCount (int (length (b # rest))))],
         threw = False\<rparr>) \<and>
   (rooms s rid = Some [a] \<and> a \<noteq> b \<and> users s a = Some owner \<and>
    isObject sv \<and> isObject lb \<longrightarrow>
      out (joinRoom (post (setUserLibrary (post (setUserServer s a sv True)) a lb True))
             b rid True) =
        [Callback (JoinReply sv lb), Emit rid (UserCount 2)])"
proof (intro conjI impI)
  assume "rooms s rid = Some (a # rest) \<and> a \<noteq> b \<and> users s a = Some owner"
  then show "joinRoom s b rid True =
        \<lparr>post = s\<lparr>rooms := (rooms s)(rid \<mapsto> set_add b (a # rest)),
                  users := (users s)(b \<mapsto> \<lparr>roomId = rid, server = server owner,
                                             library = library owner, upvoted = []\<rparr>)\<rparr>,
         out = [Callback (JoinReply (server owner) (library owner)),
                Emit rid (UserCount (int (length (set_add b (a # rest)))))],
         threw = False\<rparr>"
    by (simp add: joinRoom_def Let_def getPlexInformationForRoom_def createUser_def
        emitRoomUserCount_def room_count_def set_add_def)
next
  assume "rooms s rid = Some (b # rest)"
  then show "joinRoom s b rid True =
        \<lparr>post = s\<lparr>rooms := (rooms s)(rid \<mapsto> b # rest),
                  users := (users s)(b \<mapsto> \<lparr>roomId = rid, server = JStr [],
                                             library = JStr [], upvoted = []\<rparr>)\<rparr>,
         out = [Callback (JoinReply (JStr []) (JStr [])),
                Emit rid (UserCount (int (length (b # rest))))],
         threw = False\<rparr>"
    by (simp add: joinRoom_def Let_def getPlexInformationForRoom_def createUser_def
        emitRoomUserCount_def room_count_def set_add_def)
next
  assume "rooms s rid = Some [a] \<and> a \<noteq> b \<and> users s a = Some owner \<and>
    isObject sv \<and> isObject lb"
  then show "out (joinRoom (post (setUserLibrary (post (setUserServer s a sv True)) a lb True))
             b rid True) =
        [Callback (JoinReply sv lb), Emit rid (UserCount 2)]"
    by (auto simp: joinRoom_def Let_def getPlexInformationForRoom_def createUser_def
        emitRoomUserCount_def room_count_def set_add_def setUserServer_def setUserLibrary_def)
qed

text \<open>\<open>B\<close> joins the room \<open>A\<close> created and configured.\<close>

theorem joinRoom_copies_descriptors_witness:
  "rooms (after True hosted) ''0001'' = Some [''A''] \<and> ''A'' \<noteq> ''B'' \<and>
   users (after True hosted) ''A'' =
     Some \<lparr>roomId = ''0001'', server = plex_server, library = movies, upvoted = []\<rparr> \<and>
   out (joinRoom (after True hosted) ''B'' ''0001'' True) =
     [Callback (JoinReply plex_server movies), Emit ''0001'' (UserCount 2)] \<and>
   users (post (joinRoom (after True hosted) ''B'' ''0001'' True)) ''B'' =
     Some \<lparr>roomId = ''0001'', server = plex_server, library = movies, upvoted = []\<rparr>"
proof -
  let ?u = "\<lparr>roomId = ''0001'', server = plex_server, library = movies, upvoted = []\<rparr>"
  have r: "rooms (after True hosted) ''0001'' = Some [''A'']" by (simp add: hosted_state)
  have a: "users (after True hosted) ''A'' = Some ?u" by (simp add: hosted_state)
  have n: "''A'' \<noteq> ''B''" by simp
  from joinRoom_copies_descriptors [of "after True hosted" "''0001''" "''A''" "[]" "''B''" ?u]
    r a n
  have j: "joinRoom (after True hosted) ''B'' ''0001'' True =
        \<lparr>post = (after True hosted)\<lparr>
            rooms := (rooms (after True hosted))(''0001'' \<mapsto> set_add ''B'' [''A'']),
            users := (users (after True hosted))(''B'' \<mapsto> ?u)\<rparr>,
         out = [Callback (JoinReply plex_server movies),
                Emit ''0001'' (UserCount (int (length (set_add ''B'' [''A'']))))],
         threw = False\<rparr>"
    by simp
  have "out (joinRoom (after True hosted) ''B'' ''0001'' True) =
     [Callback (JoinReply plex_server movies), Emit ''0001'' (UserCount 2)]"
    unfolding j by (simp add: set_add_def)
  moreover have "users (post (joinRoom (after True hosted) ''B'' ''0001'' True)) ''B'' = Some ?u"
    unfolding j by simp
  ultimately show ?thesis using r a n by blast
qed

text \<open>
  Claim C7. \<open>isObject\<close> accepts exactly the plain objects: \<open>null\<close>, \<open>false\<close>, \<open>1234\<close>,
  an array and a string are rejected, \<open>{}\<close> is accepted. For a socket with a record,
  \<open>setUserServer\<close> and \<open>setUserLibrary\<close> reply \<open>success: false\<close> to a value that is not
  a plain object and leave the registry as it was; for a plain object they overwrite the
  server (the library) of the record, nothing else, and reply \<open>success: true\<close>. For a
  socket without a record they reply \<open>success: false\<close> with the member-not-found message,
  whatever the value.
\<close>

theorem set_descriptor_validation:
  "(isObject v \<longleftrightarrow> (\<exists>kvs. v = JObj kvs)) \<and>
   \<not> isObject JNull \<and> \<not> isObject (JBool False) \<and> \<not> isObject (JNum 1234) \<and>
   \<not> isObject (JArr [JStr ''Bad'', JStr ''String'']) \<and> \<not> isObject (JStr ''Bad string'') \<and>
   isObject (JObj []) \<and>
   (users s sid = Some u \<and> \<not> isObject v \<longrightarrow>
      setUserServer s sid v True =
        \<lparr>post = s,
         out = [Callback (StatusReply False
           ''Failed to update the Plex.tv server. An invalid server object was received.'')],
         threw = False\<rparr> \<and>
      setUserLibrary s sid v True =
        \<lparr>post = s,
         out = [Callback (StatusReply False
           ''Failed to update the Plex.tv library. An invalid library object was received.'')],
         threw = False\<rparr>) \<and>
   (users s sid = Some u \<and> isObject v \<longrightarrow>
      setUserServer s sid v True =
        \<lparr>post = s\<lparr>users := (users s)(sid \<mapsto> u\<lparr>server := v\<rparr>)\<rparr>,
         out = [Callback (StatusReply True ''Updated the server for the user.'')],
         threw = False\<rparr> \<and>
      setUserLibrary s sid v True =
        \<lparr>post = s\<lparr>users := (users s)(sid \<mapsto> u\<lparr>library := v\<rparr>)\<rparr>,
         out = [Callback (StatusReply True ''Updated the library for the user.'')],
         threw = False\<rparr>) \<and>
   (users s sid = None \<longrightarrow>
      setUserServer s sid v True =
        \<lparr>post = s,
         out = [Callback (StatusReply False (''Unable to find user with the Id: '' @ sid))],
         threw = False\<rparr> \<and>
      setUserLibrary s sid v True =
        \<lparr>post = s,
         out = [Callback (StatusReply False (''Unable to find user with the Id: '' @ sid))],
         threw = False\<rparr>)"
proof -
  have shape: "isObject v \<longleftrightarrow> (\<exists>kvs. v = JObj kvs)" by (rule isObject_iff)
  have tests: "\<not> isObject JNull \<and> \<not> isObject (JBool False) \<and> \<not> isObject (JNum 1234) \<and>
     \<not> isObject (JArr [JStr ''Bad'', JStr ''String'']) \<and> \<not> isObject (JStr ''Bad string'') \<and>
     isObject (JObj [])"
    by (simp add: isObject_def)
  have handlers: "(users s sid = Some u \<and> \<not> isObject v \<longrightarrow>
      setUserServer s sid v True =
        \<lparr>post = s,
         out = [Callback (StatusReply False
           ''Failed to update the Plex.tv server. An invalid server object was received.'')],
         threw = False\<rparr> \<and>
      setUserLibrary s sid v True =
        \<lparr>post = s,
         out = [Callback (StatusReply False
           ''Failed to update the Plex.tv library. An invalid library object was received.'')],
         threw = False\<rparr>) \<and>
   (users s sid = Some u \<and> isObject v \<longrightarrow>
      setUserServer s sid v True =
        \<lparr>post = s\<lparr>users := (users s)(sid \<mapsto> u\<lparr>server := v\<rparr>)\<rparr>,
         out = [Callback (StatusReply True ''Updated the server for the user.'')],
         threw = False\<rparr> \<and>
      setUserLibrary s sid v True =
        \<lparr>post = s\<lparr>users := (users s)(sid \<mapsto> u\<lparr>library := v\<rparr>)\<rparr>,
         out = [Callback (StatusReply True ''Updated the library for the user.'')],
         threw = False\<rparr>) \<and>
   (users s sid = None \<longrightarrow>
      setUserServer s sid v True =
        \<lparr>post = s,
         out = [Callback (StatusReply False (''Unable to find user with the Id: '' @ sid))],
         threw = False\<rparr> \<and>
      setUserLibrary s sid v True =
        \<lparr>post = s,
         out = [Callback (StatusReply False (''Unable to find user with the Id: '' @ sid))],
         threw = False\<rparr>)"
    by (simp add: setUserServer_def setUserLibrary_def Let_def)
  from shape tests handlers show ?thesis by blast
qed

theorem set_descriptor_validation_witness:
  "users (after True hosted) ''A'' =
     Some \<lparr>roomId = ''0001'', server = plex_server, library = movies, upvoted = []\<rparr> \<and>
   \<not> isObject (JArr [JStr ''Bad'', JStr ''String'']) \<and>
   setUserServer (after True hosted) ''A'' (JArr [JStr ''Bad'', JStr ''String'']) True =
     \<lparr>post = after True hosted,
      out = [Callback (StatusReply False
        ''Failed to update the Plex.tv server. An invalid server object was received.'')],
      threw = False\<rparr> \<and>
   isObject (JObj []) \<and>
   out (setUserLibrary (after True hosted) ''A'' (JObj []) True) =
     [Callback (StatusReply True ''Updated the library for the user.'')] \<and>
   users (after True hosted) ''B'' = None \<and>
   out (setUserServer (after True hosted) ''B'' (JObj []) True) =
     [Callback (StatusReply False ''Unable to find user with the Id: B'')]"
proof -
  let ?u = "\<lparr>roomId = ''0001'', server = plex_server, library = movies, upvoted = []\<rparr>"
  have a: "users (after True hosted) ''A'' = Some ?u" by (simp add: hosted_state)
  have b: "users (after True hosted) ''B'' = None" by (simp add: hosted_state)
  have bad: "\<not> isObject (JArr [JStr ''Bad'', JStr ''String''])" by (simp add: isObject_def)
  have good: "isObject (JObj [])" by (simp add: isObject_def)
  from set_descriptor_validation
    [of "JArr [JStr ''Bad'', JStr ''String'']" "after True hosted" "''A''" ?u] a bad
  have 1: "setUserServer (after True hosted) ''A'' (JArr [JStr ''Bad'', JStr ''String'']) True =
     \<lparr>post = after True hosted,
      out = [Callback (StatusReply False
        ''Failed to update the Plex.tv server. An invalid server object was received.'')],
      threw = False\<rparr>"
    by blast
  from set_descriptor_validation [of "JObj []" "after True hosted" "''A''" ?u] a good
  have 2: "out (setUserLibrary (after True hosted) ''A'' (JObj []) True) =
     [Callback (StatusReply True ''Updated the library for the user.'')]"
    by simp
  from set_descriptor_validation [of "JObj []" "after True hosted" "''B''" ?u] b
  have 3: "out (setUserServer (after True hosted) ''B'' (JObj []) True) =
     [Callback (StatusReply False ''Unable to find user with the Id: B'')]"
    by simp
  from a b bad good 1 2 3 show ?thesis by blast
qed

text \<open>
  Claim C8 does not hold of the code. \<open>joinRoom\<close> tests \<open>rooms[id]\<close> for truth, and
  \<open>rooms\<close> is a plain object: for an id such as \<open>constructor\<close>, which no live room has,
  the test finds the inherited property, \<open>rooms[id].add\<close> is not a function, and the
  handler throws instead of replying that the room was not found. (The registry is not
  changed. \<open>generateRoomId\<close> asks \<open>hasOwnProperty\<close> instead; for ids that are not
  inherited names the reply is the one claimed: \<open>joinRoom_unknown_room\<close>.)
\<close>

theorem joinRoom_inherited_name_throws:
  "joinRoom init ''A'' ''constructor'' True = \<lparr>post = init, out = [], threw = True\<rparr>"
  by (simp add: joinRoom_def init_def inherited_def object_prototype_def)

text \<open>
  Claim C9. In every reachable state, for a socket with a record, the room the record
  names is live and lists the socket; \<open>disconnect\<close> takes the socket out of that room's
  set and deletes the record. If the set is then empty the room is deleted, nothing is
  emitted, and a later \<open>joinRoom\<close> for that id, by any socket, is answered with the
  room-not-found failure and changes nothing; otherwise the member count of the set that
  remains is emitted to the room. For a socket without a record \<open>disconnect\<close> does
  nothing.
\<close>

theorem disconnect_member:
  assumes "reachable s"
  shows "(users s sid = Some u \<longrightarrow>
           (\<exists>members. rooms s (roomId u) = Some members \<and> sid \<in> set members \<and>
              (if set_delete sid members = [] then
                 disconnect s sid =
                   \<lparr>post = s\<lparr>rooms := (rooms s)(roomId u := None),
                             users := (users s)(sid := None)\<rparr>,
                    out = [], threw = False\<rparr> \<and>
                 joinRoom (post (disconnect s sid)) other (roomId u) True =
                   \<lparr>post = post (disconnect s sid),
                    out = [Callback (StatusReply False
                             (''Unable to find room with the Id: '' @ roomId u))],
                    threw = False\<rparr>
               else
                 disconnect s sid =
                   \<lparr>post = s\<lparr>rooms := (rooms s)(roomId u \<mapsto> set_delete sid members),
                             users := (users s)(sid := None)\<rparr>,
                    out = [Emit (roomId u) (UserCount (int (length (set_delete sid members))))],
                    threw = False\<rparr>))) \<and>
         (users s sid = None \<longrightarrow> disconnect s sid = \<lparr>post = s, out = [], threw = False\<rparr>)"
proof (intro conjI impI)
  assume u: "users s sid = Some u"
  from assms have inv: "registry_inv s" by (rule reachable_inv)
  from inv_room [OF inv u] obtain members
    where m: "rooms s (roomId u) = Some members" "sid \<in> set members" by blast
  from reachable_roomId_own [OF assms u] have own: "\<not> inherited (roomId u)" .
  have branch: "if set_delete sid members = [] then
                 disconnect s sid =
                   \<lparr>post = s\<lparr>rooms := (rooms s)(roomId u := None),
                             users := (users s)(sid := None)\<rparr>,
                    out = [], threw = False\<rparr> \<and>
                 joinRoom (post (disconnect s sid)) other (roomId u) True =
                   \<lparr>post = post (disconnect s sid),
                    out = [Callback (StatusReply False
                             (''Unable to find room with the Id: '' @ roomId u))],
                    threw = False\<rparr>
               else
                 disconnect s sid =
                   \<lparr>post = s\<lparr>rooms := (rooms s)(roomId u \<mapsto> set_delete sid members),
                             users := (users s)(sid := None)\<rparr>,
                    out = [Emit (roomId u) (UserCount (int (length (set_delete sid members))))],
                    threw = False\<rparr>"
  proof (cases "set_delete sid members = []")
    case True
    have d: "disconnect s sid =
                 \<lparr>post = s\<lparr>rooms := (rooms s)(roomId u := None),
                           users := (users s)(sid := None)\<rparr>,
                  out = [], threw = False\<rparr>"
      using u m True by (simp add: disconnect_def Let_def)
    have "rooms (post (disconnect s sid)) (roomId u) = None" by (simp add: d)
    from joinRoom_unknown_room [OF this own] d True show ?thesis by simp
  next
    case False
    with u m show ?thesis
      by (simp add: disconnect_def Let_def emitRoomUserCount_def room_count_def)
  qed
  with m show "\<exists>members. rooms s (roomId u) = Some members \<and> sid \<in> set members \<and>
              (if set_delete sid members = [] then
                 disconnect s sid =
                   \<lparr>post = s\<lparr>rooms := (rooms s)(roomId u := None),
                             users := (users s)(sid := None)\<rparr>,
                    out = [], threw = False\<rparr> \<and>
                 joinRoom (post (disconnect s sid)) other (roomId u) True =
                   \<lparr>post = post (disconnect s sid),
                    out = [Callback (StatusReply False
                             (''Unable to find room with the Id: '' @ roomId u))],
                    threw = False\<rparr>
               else
                 disconnect s sid =
                   \<lparr>post = s\<lparr>rooms := (rooms s)(roomId u \<mapsto> set_delete sid members),
                             users := (users s)(sid := None)\<rparr>,
                    out = [Emit (roomId u) (UserCount (int (length (set_delete sid members))))],
                    threw = False\<rparr>)"
    by blast
next
  assume "users s sid = None"
  then show "disconnect s sid = \<lparr>post = s, out = [], threw = False\<rparr>"
    by (simp add: disconnect_def)
qed

text \<open>From the lobby, \<open>B\<close> leaves (count 1 is emitted), then \<open>A\<close> leaves: the room is
  deleted and \<open>C\<close> cannot join it.\<close>

theorem disconnect_member_witness:
  "reachable (after True lobby) \<and>
   users (after True lobby) ''B'' =
     Some \<lparr>roomId = ''0001'', server = plex_server, library = movies, upvoted = []\<rparr> \<and>
   out (disconnect (after True lobby) ''B'') = [Emit ''0001'' (UserCount 1)] \<and>
   reachable (post (disconnect (after True lobby) ''B'')) \<and>
   users (post (disconnect (after True lobby) ''B'')) ''A'' =
     Some \<lparr>roomId = ''0001'', server = plex_server, library = movies, upvoted = []\<rparr> \<and>
   rooms (post (disconnect (post (disconnect (after True lobby) ''B'')) ''A'')) ''0001'' = None \<and>
   out (joinRoom (post (disconnect (post (disconnect (after True lobby) ''B'')) ''A''))
          ''C'' ''0001'' True) =
     [Callback (StatusReply False ''Unable to find room with the Id: 0001'')]"
proof -
  let ?u = "\<lparr>roomId = ''0001'', server = plex_server, library = movies, upvoted = []\<rparr>"
  let ?s = "after True lobby"
  let ?t = "post (disconnect ?s ''B'')"
  have rs: "reachable ?s" by (rule reachable_after)
  have b: "users ?s ''B'' = Some ?u" by (simp add: lobby_state)
  have ms: "rooms ?s ''0001'' = Some [''A'', ''B'']" by (simp add: lobby_state)
  from disconnect_member [OF rs, of "''B''" ?u] b ms
  have d1: "disconnect ?s ''B'' =
      \<lparr>post = ?s\<lparr>rooms := (rooms ?s)(''0001'' \<mapsto> set_delete ''B'' [''A'', ''B'']),
                 users := (users ?s)(''B'' := None)\<rparr>,
       out = [Emit ''0001'' (UserCount (int (length (set_delete ''B'' [''A'', ''B'']))))],
       threw = False\<rparr>"
    by (simp add: set_delete_def)
  have o1: "out (disconnect ?s ''B'') = [Emit ''0001'' (UserCount 1)]"
    unfolding d1 by (simp add: set_delete_def)
  have "handle ?s ''B'' Disconnect = Some (disconnect ?s ''B'')" by simp
  from reachable_step [OF rs this] have rt: "reachable ?t" by simp
  have a: "users ?t ''A'' = Some ?u" unfolding d1 by (simp add: lobby_state)
  have mt: "rooms ?t ''0001'' = Some [''A'']"
    unfolding d1 by (simp add: lobby_state set_delete_def)
  from disconnect_member [OF rt, of "''A''" ?u "''C''"] a mt
  have d2: "disconnect ?t ''A'' =
      \<lparr>post = ?t\<lparr>rooms := (rooms ?t)(''0001'' := None), users := (users ?t)(''A'' := None)\<rparr>,
       out = [], threw = False\<rparr> \<and>
     joinRoom (post (disconnect ?t ''A'')) ''C'' ''0001'' True =
      \<lparr>post = post (disconnect ?t ''A''),
       out = [Callback (StatusReply False (''Unable to find room with the Id: '' @ ''0001''))],
       threw = False\<rparr>"
    by (clarsimp simp: set_delete_def)
  note d = d2 [THEN conjunct1] and j = d2 [THEN conjunct2]
  have gone: "rooms (post (disconnect ?t ''A'')) ''0001'' = None"
    unfolding d by simp
  have o2: "out (joinRoom (post (disconnect ?t ''A'')) ''C'' ''0001'' True) =
     [Callback (StatusReply False ''Unable to find room with the Id: 0001'')]"
    unfolding j by simp
  from rs b o1 rt a gone o2 show ?thesis by blast
qed

text \<open>
  Claim C10. In every reachable state, \<open>requestUserCount\<close> for a live room emits one
  member-count notification to the room, whose count is the size of the room's member
  set (which is positive), and changes nothing. For an id that is not a live room the
  count that \<open>emitRoomUserCount\<close> sends is the negative value \<open>-1\<close>; a notification of
  \<open>requestUserCount\<close> for such an id, if there is one, carries it. Every member-count
  notification emitted by a handler other than the direct request (creating, joining,
  disconnecting) carries a positive count.
\<close>

theorem member_count_notification:
  assumes "reachable s"
  shows "(rooms s rid = Some members \<longrightarrow>
            requestUserCount s rid =
              \<lparr>post = s, out = [Emit rid (UserCount (int (length members)))], threw = False\<rparr> \<and>
            0 < length members) \<and>
         (rooms s rid = None \<longrightarrow>
            emitRoomUserCount s rid = Emit rid (UserCount (- 1)) \<and>
            requestUserCount s rid =
              \<lparr>post = s, out = (if inherited rid then [Emit rid (UserCount (- 1))] else []),
               threw = False\<rparr>) \<and>
         (handle s sid req = Some r \<and> \<not> direct_request req \<and>
            Emit room (UserCount n) \<in> set (out r) \<longrightarrow> 0 < n)"
proof (intro conjI impI)
  assume r: "rooms s rid = Some members"
  from assms have "registry_inv s" by (rule reachable_inv)
  from inv_live [OF this r] show "0 < length members" by simp
  with r show "requestUserCount s rid =
              \<lparr>post = s, out = [Emit rid (UserCount (int (length members)))], threw = False\<rparr>"
    by (simp add: requestUserCount_def emitRoomUserCount_def room_count_def)
next
  assume r: "rooms s rid = None"
  then show "emitRoomUserCount s rid = Emit rid (UserCount (- 1))"
    by (simp add: emitRoomUserCount_def room_count_def)
  from r show "requestUserCount s rid =
              \<lparr>post = s, out = (if inherited rid then [Emit rid (UserCount (- 1))] else []),
               threw = False\<rparr>"
    by (simp add: requestUserCount_def emitRoomUserCount_def room_count_def)
next
  assume "handle s sid req = Some r \<and> \<not> direct_request req \<and>
            Emit room (UserCount n) \<in> set (out r)"
  then show "0 < n"
    by (cases req)
      (auto dest: createRoom_counts joinRoom_counts disconnect_counts simp: other_counts)
qed

theorem member_count_notification_witness:
  "reachable (after True lobby) \<and>
   rooms (after True lobby) ''0001'' = Some [''A'', ''B''] \<and>
   out (requestUserCount (after True lobby) ''0001'') = [Emit ''0001'' (UserCount 2)] \<and>
   rooms (after True lobby) ''FFFF'' = None \<and>
   out (requestUserCount (after True lobby) ''FFFF'') = [] \<and>
   out (requestUserCount (after True lobby) ''toString'') = [Emit ''toString'' (UserCount (- 1))] \<and>
   handle (after True lobby) ''C'' (JoinRoom ''0001'' True) =
     Some (joinRoom (after True lobby) ''C'' ''0001'' True) \<and>
   \<not> direct_request (JoinRoom ''0001'' True) \<and>
   Emit ''0001'' (UserCount 3) \<in> set (out (joinRoom (after True lobby) ''C'' ''0001'' True)) \<and>
   (0::int) < 3"
proof -
  let ?s = "after True lobby"
  have rs: "reachable ?s" by (rule reachable_after)
  have ms: "rooms ?s ''0001'' = Some [''A'', ''B'']" by (simp add: lobby_state)
  have no: "rooms ?s ''FFFF'' = None" "rooms ?s ''toString'' = None"
    by (simp_all add: lobby_state)
  from member_count_notification [OF rs, of "''0001''" "[''A'', ''B'']"] ms
  have 1: "out (requestUserCount ?s ''0001'') = [Emit ''0001'' (UserCount 2)]" by simp
  from member_count_notification [OF rs, of "''FFFF''"] no
  have 2: "out (requestUserCount ?s ''FFFF'') = []"
    by (simp add: inherited_def object_prototype_def)
  from member_count_notification [OF rs, of "''toString''"] no
  have 3: "out (requestUserCount ?s ''toString'') = [Emit ''toString'' (UserCount (- 1))]"
    by (simp add: inherited_def object_prototype_def)
  have h: "handle ?s ''C'' (JoinRoom ''0001'' True) = Some (joinRoom ?s ''C'' ''0001'' True)"
    by simp
  have d: "\<not> direct_request (JoinRoom ''0001'' True)" by simp
  have e: "Emit ''0001'' (UserCount 3) \<in> set (out (joinRoom ?s ''C'' ''0001'' True))"
    by (simp add: lobby_state joinRoom_def getPlexInformationForRoom_def set_add_def Let_def
        emitRoomUserCount_def room_count_def)
  from member_count_notification [OF rs, of _ _ "''C''" "JoinRoom ''0001'' True"
      "joinRoom ?s ''C'' ''0001'' True" "''0001''" 3] h d e
  have p: "(0::int) < 3" by blast
  from rs ms 1 no(1) 2 3 h d e p show ?thesis by blast
qed


end
